theory Spec2Isabelle
  imports Complex_Main "HOL-Library.Sublist"
begin

section \<open>Numeric values and the population size categories\<close>

text \<open>
  The script \<^verbatim>\<open>SCT_DS_1.py\<close> reads the CSV files of a ZIP archive into pandas
  tables, picks one table, and charts one column of it twice: as a histogram with summary
  statistics, and as a bar chart of population size categories made with \<^verbatim>\<open>pd.cut\<close>.

  A numeric cell is a finite number or missing (NaN). Finite float64 values are real
  numbers and their comparisons are exact, so a present value is a \<^typ>\<open>real\<close> and a
  missing one is \<^term>\<open>None\<close>. The last bin edge of the script is \<^verbatim>\<open>float('inf')\<close>,
  which is why a bin edge is a separate type.
\<close>

datatype edge = Fin real | PosInf

text \<open>\<^verbatim>\<open>edge < x\<close> for a finite value \<^verbatim>\<open>x\<close>.\<close>

fun edge_less :: "edge \<Rightarrow> real \<Rightarrow> bool" where
  "edge_less (Fin b) x = (b < x)"
| "edge_less PosInf x = False"

text \<open>
  Lines 144 and 145:
  \<^verbatim>\<open>bins = [0, 1e6, 5e6, 10e6, 50e6, 100e6, 500e6, float('inf')]\<close>,
  \<^verbatim>\<open>labels = ['< 1M', '1M - 5M', '5M - 10M', '10M - 50M', '50M - 100M', '100M - 500M', '> 500M']\<close>.
\<close>

definition bins :: "edge list" where
  "bins = [Fin 0, Fin 1000000, Fin 5000000, Fin 10000000, Fin 50000000,
           Fin 100000000, Fin 500000000, PosInf]"

definition labels :: "string list" where
  "labels = [''< 1M'', ''1M - 5M'', ''5M - 10M'', ''10M - 50M'', ''50M - 100M'',
             ''100M - 500M'', ''> 500M'']"

text \<open>
  \<^verbatim>\<open>bins.searchsorted(x, side='left')\<close> on increasing edges: the index \<open>i\<close> with
  \<^verbatim>\<open>bins[i-1] < x <= bins[i]\<close>, that is the number of leading edges below \<open>x\<close>.
\<close>

fun searchsorted_left :: "edge list \<Rightarrow> real \<Rightarrow> nat" where
  "searchsorted_left [] x = 0"
| "searchsorted_left (b # bs) x = (if edge_less b x then Suc (searchsorted_left bs x) else 0)"

text \<open>
  \<^verbatim>\<open>pd.cut(x, bins, labels=labels, include_lowest=...)\<close> with the default
  \<^verbatim>\<open>right=True\<close>, for one present value. pandas computes
  \<^verbatim>\<open>ids = bins.searchsorted(x, side='left')\<close>, resets \<^verbatim>\<open>ids\<close> to 1 where
  \<^verbatim>\<open>x == bins[0]\<close> if \<^verbatim>\<open>include_lowest\<close>, gives no category (NaN) where
  \<^verbatim>\<open>ids == len(bins)\<close> or \<^verbatim>\<open>ids == 0\<close>, and the label \<^verbatim>\<open>labels[ids - 1]\<close>
  elsewhere.
\<close>

definition pd_cut :: "edge list \<Rightarrow> string list \<Rightarrow> bool \<Rightarrow> real \<Rightarrow> string option" where
  "pd_cut bs ls include_lowest x =
     (let ids = (if include_lowest \<and> (case bs of [] \<Rightarrow> False | b # _ \<Rightarrow> b = Fin x)
                 then 1 else searchsorted_left bs x)
      in if ids = length bs \<or> ids = 0 then None else Some (ls ! (ids - 1)))"

text \<open>
  The intervals \<^verbatim>\<open>pd.cut\<close> makes of the edges: interval \<open>i\<close> is
  \<^verbatim>\<open>(bins[i], bins[i+1]]\<close>, and \<^verbatim>\<open>include_lowest=True\<close> adds \<^verbatim>\<open>bins[0]\<close> to
  interval 0.
\<close>

definition in_bucket :: "nat \<Rightarrow> real \<Rightarrow> bool" where
  "in_bucket i x =
     ((edge_less (bins ! i) x \<or> (i = 0 \<and> bins ! 0 = Fin x)) \<and> \<not> edge_less (bins ! Suc i) x)"

text \<open>Line 146, for the values left by \<^verbatim>\<open>dropna()\<close>.\<close>

definition categorical_series :: "real list \<Rightarrow> string option list" where
  "categorical_series continuous_data = map (pd_cut bins labels True) continuous_data"

section \<open>Strings, errors and the archive\<close>

text \<open>
  Archive entry names and file contents are byte strings (UTF-8). The tests the script makes
  on names, \<^verbatim>\<open>file.lower().endswith(".csv")\<close>, \<^verbatim>\<open>"Metadata" in file\<close> and
  \<^verbatim>\<open>os.path.basename(file)\<close>, read the same on the bytes as on the code points:
  no byte of a multi-byte UTF-8 sequence is an ASCII character, and no character outside
  ASCII lowers to one of \<^verbatim>\<open>.csv\<close>.
\<close>

text \<open>
  The exceptions that end a run. \<open>UnicodeDecodeError\<close> is what \<^verbatim>\<open>pd.read_csv\<close> raises
  for bytes that are not text in the encoding it is given. \<open>EmptyDataset\<close> is the
  condition the specification names for an archive without CSV entries; no statement of
  the script raises it.
\<close>

datatype py_error = IndexError | KeyError | TypeError | EmptyDataError | ParserError
  | UnicodeDecodeError | EmptyDataset

definition lower_char :: "char \<Rightarrow> char" where
  "lower_char c = (let n = (of_char c :: nat) in if 65 \<le> n \<and> n \<le> 90 then char_of (n + 32) else c)"

definition lower :: "string \<Rightarrow> string" where
  "lower s = map lower_char s"

text \<open>\<^verbatim>\<open>s.endswith(t)\<close> and \<^verbatim>\<open>t in s\<close>.\<close>

definition endswith :: "string \<Rightarrow> string \<Rightarrow> bool" where
  "endswith s t = suffix t s"

definition contains :: "string \<Rightarrow> string \<Rightarrow> bool" where
  "contains t s = sublist t s"

text \<open>
  \<^verbatim>\<open>os.path.basename\<close>: what follows the last \<^verbatim>\<open>/\<close>. \<^verbatim>\<open>zipfile\<close> gives every name
  with \<^verbatim>\<open>/\<close> as its only separator; on Windows \<^verbatim>\<open>basename\<close> drops a drive prefix such
  as \<^verbatim>\<open>C:\<close> as well, which is not modelled.
\<close>

definition basename :: "string \<Rightarrow> string" where
  "basename p = rev (takeWhile (\<lambda>c. c \<noteq> CHR ''/'') (rev p))"

text \<open>
  An opened \<^verbatim>\<open>zipfile.ZipFile\<close>: its entries in archive order, each a name and its bytes.
  \<^verbatim>\<open>z.namelist()\<close> lists the names in that order; \<^verbatim>\<open>z.open(file)\<close> reads the entry the
  archive's name table holds for \<^verbatim>\<open>file\<close>, the last one of that name.
\<close>

type_synonym archive = "(string \<times> string) list"

definition namelist :: "archive \<Rightarrow> string list" where
  "namelist z = map fst z"

definition zip_open :: "archive \<Rightarrow> string \<Rightarrow> string option" where
  "zip_open z file = map_of (rev z) file"

section \<open>Tables and \<^verbatim>\<open>pd.read_csv\<close>\<close>

text \<open>
  A column of a DataFrame by its dtype: numeric (int64 or float64, \<^term>\<open>None\<close> for NaN),
  object (text cells) or categorical (the labels \<^verbatim>\<open>pd.cut\<close> returns). A table is the
  list of its named columns in column order.
\<close>

datatype column =
    NumCol "real option list"
  | ObjCol "string option list"
  | CatCol "string option list"

type_synonym table = "(string \<times> column) list"

text \<open>The number of rows of a column, \<^verbatim>\<open>len(series)\<close>.\<close>

fun column_length :: "column \<Rightarrow> nat" where
  "column_length (NumCol xs) = length xs"
| "column_length (ObjCol xs) = length xs"
| "column_length (CatCol xs) = length xs"

text \<open>
  \<^verbatim>\<open>pd.read_csv\<close> is pandas' function, not the script's, and the loader below takes it as
  a parameter: \<open>pd_read_csv f skiprows encoding\<close> is what
  \<^verbatim>\<open>pd.read_csv(f, skiprows=skiprows, encoding=encoding)\<close> gives for an archive entry
  with the bytes \<open>f\<close>, a table or the exception it raises. The call of line 22, which
  names no \<^verbatim>\<open>skiprows\<close>, is the one with \<open>skiprows\<close> 0. What the loader is proved to do, it
  does with every such function.
\<close>

type_synonym csv_reader = "string \<Rightarrow> nat \<Rightarrow> string \<Rightarrow> py_error + table"

text \<open>
  The examples and the scenario of the last section need tables read from bytes. For them
  \<open>read_csv\<close> below describes \<^verbatim>\<open>pd.read_csv\<close> on plain text only: comma separated ASCII
  text without quoted fields and without spaces around a cell, whose numbers are written as
  decimal literals with a digit in front of the point. It does not describe pandas on other
  input: not modelled are quoting (a quote character stays in the cell, a comma inside
  quotes splits it), bytes that are not UTF-8 (pandas raises \<^verbatim>\<open>UnicodeDecodeError\<close>),
  exponent forms and infinities, boolean columns, the renaming of repeated header names,
  and the index pandas makes of the first column when the first data row is longer than
  the header (the model reports every longer row as a parse error).

  Decoding with \<^verbatim>\<open>utf-8-sig\<close> drops a leading byte order mark \<^verbatim>\<open>EF BB BF\<close>.
\<close>

definition BOM :: string where
  "BOM = [CHR 0xEF, CHR 0xBB, CHR 0xBF]"

definition decode_utf8_sig :: "string \<Rightarrow> string" where
  "decode_utf8_sig bs = (if prefix BOM bs then drop 3 bs else bs)"

definition decode :: "string \<Rightarrow> string \<Rightarrow> string" where
  "decode encoding bs = (if encoding = ''utf-8-sig'' then decode_utf8_sig bs else bs)"

text \<open>\<^verbatim>\<open>s.split(d)\<close>: the pieces of \<open>s\<close> between the occurrences of \<open>d\<close>, at least one.\<close>

fun split_on :: "char \<Rightarrow> string \<Rightarrow> string list" where
  "split_on d [] = [[]]"
| "split_on d (c # cs) =
     (if c = d then [] # split_on d cs
      else (case split_on d cs of [] \<Rightarrow> [[c]] | r # rs \<Rightarrow> (c # r) # rs))"

text \<open>A line ends at \<^verbatim>\<open>\n\<close>, \<^verbatim>\<open>\r\n\<close> or \<^verbatim>\<open>\r\<close>.\<close>

fun universal_newlines :: "string \<Rightarrow> string" where
  "universal_newlines (c # d # cs) =
     (if c = CHR 0x0D \<and> d = CHR 0x0A then CHR 0x0A # universal_newlines cs
      else (if c = CHR 0x0D then CHR 0x0A else c) # universal_newlines (d # cs))"
| "universal_newlines [c] = [if c = CHR 0x0D then CHR 0x0A else c]"
| "universal_newlines [] = []"

definition split_lines :: "string \<Rightarrow> string list" where
  "split_lines s = split_on (CHR 0x0A) (universal_newlines s)"

text \<open>A blank line (\<^verbatim>\<open>skip_blank_lines=True\<close>): empty, or spaces and tabs only.\<close>

definition blank :: "string \<Rightarrow> bool" where
  "blank l = list_all (\<lambda>c. c = CHR '' '' \<or> c = CHR 0x09) l"

fun show_digits :: "nat \<Rightarrow> nat \<Rightarrow> string" where
  "show_digits 0 n = []"
| "show_digits (Suc fuel) n =
     (if n < 10 then [char_of (48 + n)]
      else show_digits fuel (n div 10) @ [char_of (48 + n mod 10)])"

text \<open>\<^verbatim>\<open>str(n)\<close>; \<open>n\<close> has fewer than \<open>n + 1\<close> digits.\<close>

definition show_nat :: "nat \<Rightarrow> string" where
  "show_nat n = show_digits (Suc n) n"

text \<open>The header: a field without a name becomes \<^verbatim>\<open>Unnamed: i\<close>.\<close>

definition header_names :: "string list \<Rightarrow> string list" where
  "header_names fields =
     map (\<lambda>(i, name). if name = [] then ''Unnamed: '' @ show_nat i else name)
       (zip [0..<length fields] fields)"

text \<open>The strings pandas reads as a missing value (\<^verbatim>\<open>STR_NA_VALUES\<close>).\<close>

definition na_values :: "string list" where
  "na_values = [[], ''#N/A'', ''#N/A N/A'', ''#NA'', ''-1.#IND'', ''-1.#QNAN'', ''-NaN'',
                ''-nan'', ''1.#IND'', ''1.#QNAN'', ''<NA>'', ''N/A'', ''NA'', ''NULL'', ''NaN'',
                ''None'', ''n/a'', ''nan'', ''null'']"

definition is_digit :: "char \<Rightarrow> bool" where
  "is_digit c = (let n = (of_char c :: nat) in 48 \<le> n \<and> n \<le> 57)"

definition digits_value :: "string \<Rightarrow> nat" where
  "digits_value ds = foldl (\<lambda>a c. 10 * a + (of_char c - 48)) 0 ds"

text \<open>A decimal literal: an optional sign, digits, and optionally a point and digits.\<close>

definition parse_unsigned :: "string \<Rightarrow> real option" where
  "parse_unsigned s =
     (let ip = takeWhile is_digit s; rest = dropWhile is_digit s
      in if ip = [] then None
         else (case rest of
                 [] \<Rightarrow> Some (real (digits_value ip))
               | c # fp \<Rightarrow>
                   if c = CHR ''.'' \<and> list_all is_digit fp
                   then Some (real (digits_value ip) + real (digits_value fp) / 10 ^ length fp)
                   else None))"

definition parse_number :: "string \<Rightarrow> real option" where
  "parse_number s =
     (case s of
        [] \<Rightarrow> None
      | c # cs \<Rightarrow>
          if c = CHR ''-'' then map_option uminus (parse_unsigned cs)
          else if c = CHR ''+'' then parse_unsigned cs
          else parse_unsigned s)"

text \<open>
  The dtype pandas infers for a column of cells: a table without rows has object columns;
  a column whose present cells are all numbers is numeric; any other column is object.
\<close>

definition infer_column :: "string list \<Rightarrow> column" where
  "infer_column cells =
     (if cells = [] then ObjCol []
      else if list_all (\<lambda>c. c \<in> set na_values \<or> parse_number c \<noteq> None) cells
      then NumCol (map (\<lambda>c. if c \<in> set na_values then None else parse_number c) cells)
      else ObjCol (map (\<lambda>c. if c \<in> set na_values then None else Some c) cells))"

text \<open>
  The first \<open>skiprows\<close> lines are skipped as they are, blank ones too; of the lines that
  follow, the blank ones are dropped, the first is the header and the others are the rows.
  A text with no line left has no columns to parse; a short row is filled with missing cells.
\<close>

definition read_csv :: csv_reader where
  "read_csv f skiprows encoding =
     (case filter (\<lambda>l. \<not> blank l) (drop skiprows (split_lines (decode encoding f))) of
        [] \<Rightarrow> Inl EmptyDataError
      | header # lines \<Rightarrow>
          (let names = header_names (split_on (CHR '','') header);
               rows = map (split_on (CHR '','')) lines
           in if list_ex (\<lambda>r. length names < length r) rows then Inl ParserError
              else Inr (map (\<lambda>(i, name).
                          (name, infer_column (map (\<lambda>r. if i < length r then r ! i else []) rows)))
                        (zip [0..<length names] names))))"

section \<open>The archive loader and the choice of the dataset\<close>

text \<open>
  A Python \<^verbatim>\<open>dict\<close> keeps its keys in insertion order; \<^verbatim>\<open>d[k] = v\<close> replaces the
  value of a key that is there, in its place, and adds a new key at the end.
\<close>

type_synonym 'v dict = "(string \<times> 'v) list"

fun dict_setitem :: "'v dict \<Rightarrow> string \<Rightarrow> 'v \<Rightarrow> 'v dict" where
  "dict_setitem [] k v = [(k, v)]"
| "dict_setitem ((k', v') # d) k v =
     (if k' = k then (k, v) # d else (k', v') # dict_setitem d k v)"

text \<open>Line 19: \<^verbatim>\<open>file.lower().endswith(".csv")\<close>.\<close>

definition is_csv :: "string \<Rightarrow> bool" where
  "is_csv file = endswith (lower file) ''.csv''"

text \<open>
  Lines 20 to 27, the table read from one entry, and lines 18 to 28, the loop
  \<^verbatim>\<open>for file in z.namelist()\<close> over the names still to visit. An exception of
  \<^verbatim>\<open>z.open\<close> or \<^verbatim>\<open>pd.read_csv\<close> ends the loop and the run.
\<close>

definition read_entry :: "csv_reader \<Rightarrow> archive \<Rightarrow> string \<Rightarrow> py_error + table" where
  "read_entry pd_read_csv z file =
     (case zip_open z file of
        None \<Rightarrow> Inl KeyError
      | Some f \<Rightarrow>
          if contains ''Metadata'' file then pd_read_csv f 0 ''utf-8-sig''
          else pd_read_csv f 4 ''utf-8-sig'')"

fun load_loop ::
  "csv_reader \<Rightarrow> archive \<Rightarrow> string list \<Rightarrow> table dict \<Rightarrow> py_error + table dict" where
  "load_loop pd_read_csv z [] dataframes = Inr dataframes"
| "load_loop pd_read_csv z (file # files) dataframes =
     (if is_csv file then
        (case read_entry pd_read_csv z file of
           Inl e \<Rightarrow> Inl e
         | Inr df \<Rightarrow>
             load_loop pd_read_csv z files (dict_setitem dataframes (basename file) df))
      else load_loop pd_read_csv z files dataframes)"

definition load_all_csv_from_zip :: "csv_reader \<Rightarrow> archive \<Rightarrow> py_error + table dict" where
  "load_all_csv_from_zip pd_read_csv z = load_loop pd_read_csv z (namelist z) []"

text \<open>Lines 38 to 42: the first key without \<^verbatim>\<open>Metadata\<close> in it, or \<^verbatim>\<open>None\<close>.\<close>

fun main_data_file :: "table dict \<Rightarrow> string option" where
  "main_data_file [] = None"
| "main_data_file ((filename, df) # datasets) =
     (if \<not> contains ''Metadata'' filename then Some filename else main_data_file datasets)"

text \<open>
  What the script prints and draws, in order. \<open>UsingDataset\<close> and \<open>UsingFirstDataset\<close>
  are the lines of lines 46 and 50; \<open>WarnContinuousNotFound\<close>, \<open>WarnNotNumeric\<close>,
  \<open>CannotCreateCategories\<close> and \<open>WarnCategoricalNotFound\<close> the warnings of lines 125, 133,
  154 and 159, the two about a missing column with the columns the table has;
  \<open>VisualizingContinuous\<close> and \<open>VisualizingCategorical\<close> the banners in front of a chart;
  \<open>Histogram\<close> and \<open>BarChart\<close> the charts shown, with their title column and data;
  \<open>SummaryStatistics\<close> and \<open>CategoricalSummary\<close> the summaries printed after them.
\<close>

record summary =
  count :: nat
  mean :: "real option"
  median :: "real option"
  minimum :: "real option"
  maximum :: "real option"
  std :: "real option"

datatype event =
    UsingDataset string
  | UsingFirstDataset string
  | WarnContinuousNotFound string "string list"
  | WarnNotNumeric string
  | VisualizingContinuous string
  | Histogram string "real list"
  | SummaryStatistics string summary
  | VisualizingCategorical string
  | BarChart string column nat
  | CategoricalSummary string nat nat
  | CannotCreateCategories string
  | WarnCategoricalNotFound string "string list"

text \<open>
  Lines 44 to 50. \<^verbatim>\<open>if main_data_file:\<close> is false for \<^verbatim>\<open>None\<close> and for the empty
  string; \<^verbatim>\<open>list(datasets.values())[0]\<close> raises \<^verbatim>\<open>IndexError\<close> on an empty dict.
\<close>

definition select_dataset :: "table dict \<Rightarrow> py_error + (event \<times> table)" where
  "select_dataset datasets =
     (let fallback = (case datasets of
                        [] \<Rightarrow> Inl IndexError
                      | (k, v) # _ \<Rightarrow> Inr (UsingFirstDataset k, v))
      in case main_data_file datasets of
           None \<Rightarrow> fallback
         | Some name \<Rightarrow>
             if name = [] then fallback
             else (case map_of datasets name of
                     None \<Rightarrow> Inl KeyError
                   | Some df \<Rightarrow> Inr (UsingDataset name, df)))"

section \<open>The configuration and the two charts\<close>

text \<open>
  Lines 55 to 61. The script fixes these four values at module level; the functions below
  take them as a parameter, and \<open>script_config\<close> is the script's own choice.
  \<^verbatim>\<open>if continuous_column:\<close> and \<^verbatim>\<open>elif categorical_column:\<close> are false for
  \<^verbatim>\<open>None\<close> and for the empty string.
\<close>

record config =
  categorical_column :: "string option"
  continuous_column :: "string option"
  CREATE_CATEGORICAL_FROM_CONTINUOUS :: bool
  CONTINUOUS_COLUMN_FOR_BINNING :: string

definition script_config :: config where
  "script_config =
     \<lparr>categorical_column = None, continuous_column = Some ''2020'',
      CREATE_CATEGORICAL_FROM_CONTINUOUS = True, CONTINUOUS_COLUMN_FOR_BINNING = ''2020''\<rparr>"

definition truthy :: "string option \<Rightarrow> bool" where
  "truthy v = (case v of None \<Rightarrow> False | Some s \<Rightarrow> s \<noteq> [])"

text \<open>\<^verbatim>\<open>series.dropna()\<close>: the present values, in order.\<close>

definition dropna :: "'a option list \<Rightarrow> 'a list" where
  "dropna series = map the (filter (\<lambda>v. v \<noteq> None) series)"

text \<open>
  pandas computes the mean and the median in float64 (IEEE 754 binary64). A finite float64
  is a number \<^verbatim>\<open>m * 2^e\<close> for integers \<^verbatim>\<open>|m| < 2^53\<close> and \<^verbatim>\<open>-1074 <= e <= 971\<close>. The
  result of an addition or a division is the exact result rounded to the nearest float64,
  to the one with the even significand when two are equally near, and a result that
  rounds to \<^verbatim>\<open>2^1024\<close> or beyond is an infinity. A statistic that is not a finite number, NaN or
  an infinity, is \<^term>\<open>None\<close>; adding to it or dividing it by a count gives no finite
  number again.
\<close>

definition is_f64 :: "real \<Rightarrow> bool" where
  "is_f64 x = (\<exists>m e. \<bar>m\<bar> < 2 ^ 53 \<and> - 1074 \<le> e \<and> e \<le> 971 \<and> x = of_int m * 2 powi e)"

text \<open>Rounding to the nearest integer, a tie to the even one.\<close>

definition round_half_even :: "real \<Rightarrow> int" where
  "round_half_even x =
     (let f = \<lfloor>x\<rfloor>; d = x - of_int f
      in if d < 1 / 2 then f else if 1 / 2 < d then f + 1 else if even f then f else f + 1)"

text \<open>
  The exponent of the unit in the last place of the float64 numbers between which \<open>x\<close>
  lies: \<^verbatim>\<open>e - 52\<close> for \<^verbatim>\<open>2^e <= |x| < 2^(e+1)\<close>, and \<^verbatim>\<open>-1074\<close> below \<^verbatim>\<open>2^-1022\<close>.
\<close>

definition ulp_exponent :: "real \<Rightarrow> int" where
  "ulp_exponent x = max \<lfloor>log 2 \<bar>x\<bar>\<rfloor> (- 1022) - 52"

text \<open>
  The float64 nearest to \<open>x\<close> when the exponent is not bounded above, and the result of
  rounding \<open>x\<close>: that number, or an infinity.
\<close>

definition nearest_f64 :: "real \<Rightarrow> real" where
  "nearest_f64 x =
     (if x = 0 then 0
      else of_int (round_half_even (x / 2 powi ulp_exponent x)) * 2 powi ulp_exponent x)"

definition round_f64 :: "real \<Rightarrow> real option" where
  "round_f64 x = (if \<bar>nearest_f64 x\<bar> < 2 ^ 1024 then Some (nearest_f64 x) else None)"

definition f64_add :: "real option \<Rightarrow> real option \<Rightarrow> real option" where
  "f64_add a b = (case (a, b) of (Some x, Some y) \<Rightarrow> round_f64 (x + y) | _ \<Rightarrow> None)"

definition f64_div :: "real option \<Rightarrow> real option \<Rightarrow> real option" where
  "f64_div a b =
     (case (a, b) of
        (Some x, Some y) \<Rightarrow> if y = 0 then None else round_f64 (x / y)
      | _ \<Rightarrow> None)"

text \<open>
  The summary statistics of a cleaned series. \<^verbatim>\<open>mean()\<close> is the float64 sum of the
  values divided by their number, NaN for an empty series. pandas adds in an order of its
  own (numpy adds a long array in blocks); the model adds from left to right, and what is
  proved of the mean below is about series whose every order of addition gives the same
  float64. \<^verbatim>\<open>median()\<close> is the middle value of the sorted series, or the float64 mean of
  the two middle values. \<^verbatim>\<open>min()\<close> and \<^verbatim>\<open>max()\<close> are values of the series.
\<close>

definition series_sum :: "real list \<Rightarrow> real option" where
  "series_sum xs = foldl f64_add (Some 0) (map Some xs)"

definition series_mean :: "real list \<Rightarrow> real option" where
  "series_mean xs = f64_div (series_sum xs) (Some (real (length xs)))"

definition series_median :: "real list \<Rightarrow> real option" where
  "series_median xs =
     (let s = sort xs; n = length xs
      in if n = 0 then None
         else if odd n then Some (s ! (n div 2))
         else f64_div (f64_add (Some (s ! (n div 2 - 1))) (Some (s ! (n div 2)))) (Some 2))"

definition series_min :: "real list \<Rightarrow> real option" where
  "series_min xs = (case xs of [] \<Rightarrow> None | x # r \<Rightarrow> Some (foldl min x r))"

definition series_max :: "real list \<Rightarrow> real option" where
  "series_max xs = (case xs of [] \<Rightarrow> None | x # r \<Rightarrow> Some (foldl max x r))"

text \<open>
  \<^verbatim>\<open>std()\<close> is NaN for fewer than two values. For more it is given here by the exact
  sample standard deviation, which pandas approximates in float64; nothing below is proved
  of its value.
\<close>

definition series_std :: "real list \<Rightarrow> real option" where
  "series_std xs =
     (if length xs < 2 then None
      else (let m = sum_list xs / real (length xs)
            in Some (sqrt (sum_list (map (\<lambda>x. (x - m)\<^sup>2) xs) / real (length xs - 1)))))"


text \<open>
  Lines 65 to 89, for a numeric series: the histogram of the cleaned series
  (\<^verbatim>\<open>plt.hist(series_clean, bins=30, ...)\<close> and \<^verbatim>\<open>plt.show()\<close>), then the printed summary.
  The histogram is taken as drawn. \<^verbatim>\<open>plt.hist\<close> itself raises \<^verbatim>\<open>ValueError\<close> for a series
  whose range float64 cannot divide into 30 bins, such as the single value \<^verbatim>\<open>1e15\<close>, and
  the run then ends before the summary; the model leaves this failure of the plotting
  library out. What is proved below of a summary is proved of a summary that was printed,
  and no statement says that a run with a histogram ends without an exception, except for
  the two values of the scenario in the last section.
\<close>

definition visualize_continuous :: "real option list \<Rightarrow> string \<Rightarrow> event list" where
  "visualize_continuous series column_name =
     (let series_clean = dropna series
      in [Histogram column_name series_clean,
          SummaryStatistics column_name
            \<lparr>count = length series_clean, mean = series_mean series_clean,
             median = series_median series_clean, minimum = series_min series_clean,
             maximum = series_max series_clean, std = series_std series_clean\<rparr>])"

text \<open>The cleaned column, the number of its values and of its distinct values.\<close>

fun dropna_column :: "column \<Rightarrow> column" where
  "dropna_column (NumCol xs) = NumCol (map Some (dropna xs))"
| "dropna_column (ObjCol xs) = ObjCol (map Some (dropna xs))"
| "dropna_column (CatCol xs) = CatCol (map Some (dropna xs))"

fun column_count :: "column \<Rightarrow> nat" where
  "column_count (NumCol xs) = length (dropna xs)"
| "column_count (ObjCol xs) = length (dropna xs)"
| "column_count (CatCol xs) = length (dropna xs)"

fun column_nunique :: "column \<Rightarrow> nat" where
  "column_nunique (NumCol xs) = length (remdups (dropna xs))"
| "column_nunique (ObjCol xs) = length (remdups (dropna xs))"
| "column_nunique (CatCol xs) = length (remdups (dropna xs))"

text \<open>
  The frequency table \<^verbatim>\<open>series_clean.value_counts()\<close> has no row when the cleaned
  series has no value; for a categorical series it has a row for every category, present or
  not, and the categories of \<^verbatim>\<open>pd.cut\<close> are the seven labels.
\<close>

fun value_counts_empty :: "column \<Rightarrow> bool" where
  "value_counts_empty (NumCol xs) = (dropna xs = [])"
| "value_counts_empty (ObjCol xs) = (dropna xs = [])"
| "value_counts_empty (CatCol xs) = False"

text \<open>
  Lines 92 to 119: the bar chart of \<^verbatim>\<open>series_clean.value_counts().head(top_n)\<close>, then
  the printed summary. The chart is recorded by the cleaned series and \<open>top_n\<close> it is
  drawn from; the frequency table in between (the order pandas lists equal counts in) is
  left to pandas. Of the printed summary the model keeps the number of distinct values and
  the number of values. pandas cannot draw the bar chart of a frequency table without rows:
  \<^verbatim>\<open>counts.plot(kind="bar")\<close> then raises \<^verbatim>\<open>IndexError\<close>, before anything is shown.
\<close>

definition visualize_categorical ::
  "column \<Rightarrow> string \<Rightarrow> nat \<Rightarrow> event list \<times> py_error option" where
  "visualize_categorical series column_name top_n =
     (let series_clean = dropna_column series
      in if value_counts_empty series_clean \<or> top_n = 0 then ([], Some IndexError)
         else ([BarChart column_name series_clean top_n,
                CategoricalSummary column_name (column_nunique series_clean)
                  (column_count series_clean)], None))"

text \<open>\<^verbatim>\<open>pd.api.types.is_numeric_dtype(df[name])\<close>.\<close>

fun is_numeric_dtype :: "column \<Rightarrow> bool" where
  "is_numeric_dtype (NumCol xs) = True"
| "is_numeric_dtype (ObjCol xs) = False"
| "is_numeric_dtype (CatCol xs) = False"

text \<open>Lines 123 to 133.\<close>

definition continuous_part :: "config \<Rightarrow> table \<Rightarrow> event list" where
  "continuous_part cfg df =
     (case continuous_column cfg of
        None \<Rightarrow> []
      | Some name \<Rightarrow>
          if name = [] then []
          else (case map_of df name of
                  None \<Rightarrow> [WarnContinuousNotFound name (map fst df)]
                | Some (NumCol series) \<Rightarrow>
                    VisualizingContinuous name # visualize_continuous series name
                | Some _ \<Rightarrow> [WarnNotNumeric name]))"

text \<open>
  Line 146 on the column of line 139. On text cells the comparison with a bin edge raises
  \<^verbatim>\<open>TypeError\<close>; a column with no cell left has nothing to compare.
\<close>

fun cut_column :: "column \<Rightarrow> py_error + column" where
  "cut_column (NumCol xs) = Inr (CatCol (categorical_series (dropna xs)))"
| "cut_column (ObjCol xs) = (if dropna xs = [] then Inr (CatCol []) else Inl TypeError)"
| "cut_column (CatCol xs) = (if dropna xs = [] then Inr (CatCol []) else Inl TypeError)"

text \<open>
  Lines 137 to 164: the events of the block up to its end or to the exception that ended
  it, and that exception, if there was one.
  \<^verbatim>\<open>f"{CONTINUOUS_COLUMN_FOR_BINNING} (Population Size Categories)"\<close> names the chart.
\<close>

definition categorical_part :: "config \<Rightarrow> table \<Rightarrow> event list \<times> py_error option" where
  "categorical_part cfg df =
     (let name = CONTINUOUS_COLUMN_FOR_BINNING cfg
      in if CREATE_CATEGORICAL_FROM_CONTINUOUS cfg \<and> name \<in> set (map fst df) then
           (case map_of df name of
              None \<Rightarrow> ([], Some KeyError)
            | Some col \<Rightarrow>
                if name = ''2020'' \<or> is_numeric_dtype col then
                  (case cut_column col of
                     Inl e \<Rightarrow> ([], Some e)
                   | Inr cats \<Rightarrow>
                       (let categorical_column_name = name @ '' (Population Size Categories)''
                        in case visualize_categorical cats categorical_column_name 10 of
                             (es, err) \<Rightarrow>
                               (VisualizingCategorical categorical_column_name # es, err)))
                else ([CannotCreateCategories name], None))
         else if truthy (categorical_column cfg) then
           (let cname = the (categorical_column cfg)
            in case map_of df cname of
                 None \<Rightarrow> ([WarnCategoricalNotFound cname (map fst df)], None)
               | Some col \<Rightarrow>
                   (case visualize_categorical col cname 30 of
                      (es, err) \<Rightarrow> (VisualizingCategorical cname # es, err)))
         else ([], None))"

text \<open>Lines 122 to 164 on the selected table.\<close>

definition visualize :: "config \<Rightarrow> table \<Rightarrow> event list \<times> py_error option" where
  "visualize cfg df =
     (case categorical_part cfg df of (es, err) \<Rightarrow> (continuous_part cfg df @ es, err))"

text \<open>The whole script on an archive: what it printed and drew, and how it ended.\<close>

definition script :: "csv_reader \<Rightarrow> config \<Rightarrow> archive \<Rightarrow> event list \<times> py_error option" where
  "script pd_read_csv cfg z =
     (case load_all_csv_from_zip pd_read_csv z of
        Inl e \<Rightarrow> ([], Some e)
      | Inr datasets \<Rightarrow>
          (case select_dataset datasets of
             Inl e \<Rightarrow> ([], Some e)
           | Inr (using, df) \<Rightarrow>
               (case visualize cfg df of (es, err) \<Rightarrow> (using # es, err))))"

text \<open>
  The events that are a printed diagnostic of a configuration mismatch, and those that are
  a rendered chart.
\<close>

fun is_diagnostic :: "event \<Rightarrow> bool" where
  "is_diagnostic (WarnContinuousNotFound name columns) = True"
| "is_diagnostic (WarnNotNumeric name) = True"
| "is_diagnostic (CannotCreateCategories name) = True"
| "is_diagnostic (WarnCategoricalNotFound name columns) = True"
| "is_diagnostic e = False"

fun is_histogram :: "event \<Rightarrow> bool" where
  "is_histogram (Histogram name xs) = True"
| "is_histogram e = False"

fun is_bar_chart :: "event \<Rightarrow> bool" where
  "is_bar_chart (BarChart name series top_n) = True"
| "is_bar_chart e = False"

section \<open>Properties of the categories\<close>

text \<open>The script's edges and labels, and \<^verbatim>\<open>pd.cut\<close> on them written out.\<close>

lemma bins_labels_lengths: "length bins = 8 \<and> length labels = 7 \<and> distinct labels"
  by (simp add: bins_def labels_def)

lemma pd_cut_script:
  "pd_cut bins labels True x =
     (if x < 0 then None
      else if x \<le> 1000000 then Some ''< 1M''
      else if x \<le> 5000000 then Some ''1M - 5M''
      else if x \<le> 10000000 then Some ''5M - 10M''
      else if x \<le> 50000000 then Some ''10M - 50M''
      else if x \<le> 100000000 then Some ''50M - 100M''
      else if x \<le> 500000000 then Some ''100M - 500M''
      else Some ''> 500M'')"
  by (simp add: pd_cut_def bins_def labels_def)

text \<open>
  Claim C1, as the specification states it, fails: the ranges are closed on the right, so
  the value 1,000,000 is the last value of \<^verbatim>\<open>< 1M\<close>.
\<close>

theorem C1_boundary_counterexample:
  "\<not> (pd_cut bins labels True 1000000 = Some ''1M - 5M''
      \<and> pd_cut bins labels True 0 = Some ''< 1M'')"
  by (simp add: pd_cut_script)

text \<open>
  Claim C1, amended: the value 1,000,000 is given the label \<^verbatim>\<open>< 1M\<close>, and so is the
  value 0.
\<close>

theorem C1_boundary_labels:
  "categorical_series [1000000, 0] = [Some ''< 1M'', Some ''< 1M'']"
  by (simp add: categorical_series_def pd_cut_script)

text \<open>The seven ranges written out; \<^verbatim>\<open>pd.cut\<close> gives a value the label of its range.\<close>

lemma in_bucket_script:
  "i < 7 \<Longrightarrow> in_bucket i x \<longleftrightarrow>
     (i = 0 \<and> 0 \<le> x \<and> x \<le> 1000000) \<or> (i = 1 \<and> 1000000 < x \<and> x \<le> 5000000) \<or>
     (i = 2 \<and> 5000000 < x \<and> x \<le> 10000000) \<or> (i = 3 \<and> 10000000 < x \<and> x \<le> 50000000) \<or>
     (i = 4 \<and> 50000000 < x \<and> x \<le> 100000000) \<or> (i = 5 \<and> 100000000 < x \<and> x \<le> 500000000) \<or>
     (i = 6 \<and> 500000000 < x)"
proof -
  assume "i < 7"
  then consider "i = 0" | "i = 1" | "i = 2" | "i = 3" | "i = 4" | "i = 5" | "i = 6"
    by linarith
  then show ?thesis
    by cases (auto simp: in_bucket_def bins_def)
qed

lemma labels_nth:
  "labels ! 0 = ''< 1M''" "labels ! 1 = ''1M - 5M''" "labels ! 2 = ''5M - 10M''"
  "labels ! 3 = ''10M - 50M''" "labels ! 4 = ''50M - 100M''" "labels ! 5 = ''100M - 500M''"
  "labels ! 6 = ''> 500M''" "labels ! Suc 0 = ''1M - 5M''"
  by (simp_all add: labels_def)

lemma in_bucket_pd_cut:
  assumes "i < 7" and "in_bucket i v"
  shows "pd_cut bins labels True v = Some (labels ! i)"
proof -
  from assms(1) consider "i = 0" | "i = 1" | "i = 2" | "i = 3" | "i = 4" | "i = 5" | "i = 6"
    by linarith
  then show ?thesis
    using assms(2) by cases (simp_all add: in_bucket_script pd_cut_script labels_nth)
qed

lemma in_bucket_exists:
  assumes "0 \<le> v"
  shows "\<exists>i<7. in_bucket i v"
proof -
  consider "v \<le> 1000000" | "1000000 < v" "v \<le> 5000000" | "5000000 < v" "v \<le> 10000000"
    | "10000000 < v" "v \<le> 50000000" | "50000000 < v" "v \<le> 100000000"
    | "100000000 < v" "v \<le> 500000000" | "500000000 < v"
    by linarith
  then show ?thesis
  proof cases
    case 1
    with assms have "in_bucket 0 v" by (simp add: in_bucket_script)
    then show ?thesis by (intro exI[of _ 0]) simp
  next
    case 2
    then have "in_bucket 1 v" by (simp add: in_bucket_script)
    then show ?thesis by (intro exI[of _ 1]) simp
  next
    case 3
    then have "in_bucket 2 v" by (simp add: in_bucket_script)
    then show ?thesis by (intro exI[of _ 2]) simp
  next
    case 4
    then have "in_bucket 3 v" by (simp add: in_bucket_script)
    then show ?thesis by (intro exI[of _ 3]) simp
  next
    case 5
    then have "in_bucket 4 v" by (simp add: in_bucket_script)
    then show ?thesis by (intro exI[of _ 4]) simp
  next
    case 6
    then have "in_bucket 5 v" by (simp add: in_bucket_script)
    then show ?thesis by (intro exI[of _ 5]) simp
  next
    case 7
    then have "in_bucket 6 v" by (simp add: in_bucket_script)
    then show ?thesis by (intro exI[of _ 6]) simp
  qed
qed

lemma in_bucket_unique:
  assumes "i < 7" and "j < 7" and "in_bucket i v" and "in_bucket j v"
  shows "j = i"
proof -
  have "labels ! j = labels ! i"
    using in_bucket_pd_cut [OF assms(1,3)] in_bucket_pd_cut [OF assms(2,4)] by simp
  moreover have "distinct labels" "length labels = 7"
    by (simp_all add: labels_def)
  ultimately show ?thesis
    using assms(1,2) by (simp add: nth_eq_iff_index_eq)
qed

text \<open>
  Claim C4. The seven ranges partition the non-negative numbers: every value \<open>v \<ge> 0\<close> lies
  in one range, \<^verbatim>\<open>pd.cut\<close> gives it the label of that range, and it lies in no other.
  Each range ends at the edge the next one starts after, so the ranges are contiguous.
\<close>

theorem C4_buckets_partition:
  assumes "0 \<le> v"
  shows "\<exists>i < length labels. in_bucket i v \<and> pd_cut bins labels True v = Some (labels ! i)
           \<and> (\<forall>j < length labels. in_bucket j v \<longrightarrow> j = i)"
proof -
  have len: "length labels = 7" by (simp add: labels_def)
  from in_bucket_exists [OF assms] obtain i where i: "i < 7" "in_bucket i v" by blast
  have cut: "pd_cut bins labels True v = Some (labels ! i)"
    using i by (rule in_bucket_pd_cut)
  have uniq: "\<forall>j < length labels. in_bucket j v \<longrightarrow> j = i"
    using i(1) i(2) in_bucket_unique len by simp
  show ?thesis
  proof (intro exI conjI)
    show "i < length labels" using i(1) len by simp
  qed (rule i(2), rule cut, rule uniq)
qed

text \<open>The boundary value 1,000,000 lies in the first range only.\<close>

theorem C4_buckets_partition_witness:
  "\<exists>i < length labels. in_bucket i 1000000 \<and> pd_cut bins labels True 1000000 = Some (labels ! i)
           \<and> (\<forall>j < length labels. in_bucket j 1000000 \<longrightarrow> j = i)"
  using C4_buckets_partition [of 1000000] by simp

section \<open>The loader and the choice of the dataset\<close>

text \<open>
  Assignment to a dict key, and the loader's loop as a fold of assignments over the names
  that end in \<^verbatim>\<open>.csv\<close>.
\<close>

lemma map_of_dict_setitem: "map_of (dict_setitem d k v) = (map_of d)(k \<mapsto> v)"
  by (induction d k v rule: dict_setitem.induct) auto

lemma keys_dict_setitem:
  "map fst (dict_setitem d k v) = (if k \<in> set (map fst d) then map fst d else map fst d @ [k])"
  by (induction d k v rule: dict_setitem.induct) auto

lemma is_csv_basename: 
  assumes "is_csv name" shows "basename name \<noteq> []"
proof -
  from assms obtain p where p: "map lower_char name = p @ ''.csv''"
    by (auto simp: is_csv_def endswith_def lower_def suffix_def)
  then have ne: "name \<noteq> []" by auto
  then have "lower_char (last name) = last (map lower_char name)"
    by (simp add: last_map)
  also have "\<dots> = CHR ''v''" using p by simp
  finally have "last name \<noteq> CHR ''/''"
    by (auto simp: lower_char_def)
  with ne show ?thesis
    by (induction name rule: rev_induct) (auto simp: basename_def)
qed

lemma load_loop_foldl:
  "load_loop pd_read_csv z files d = Inr d' \<Longrightarrow>
     (\<forall>f \<in> set files. is_csv f \<longrightarrow> (\<exists>df. read_entry pd_read_csv z f = Inr df)) \<and>
     d' = foldl (\<lambda>d f. dict_setitem d (basename f) (projr (read_entry pd_read_csv z f))) d (filter is_csv files)"
  by (induction files arbitrary: d) (auto split: if_splits sum.splits)

lemma find_append': "find P (xs @ ys) = (case find P xs of None \<Rightarrow> find P ys | Some x \<Rightarrow> Some x)"
  by (induction xs) auto

lemma map_of_foldl_setitem:
  "map_of (foldl (\<lambda>d f. dict_setitem d (key f) (val f)) d fs) k =
     (case find (\<lambda>f. key f = k) (rev fs) of None \<Rightarrow> map_of d k | Some f \<Rightarrow> Some (val f))"
  by (induction fs arbitrary: d) (auto simp: map_of_dict_setitem find_append' split: option.splits)

lemma set_keys_dict_setitem:
  "fst ` set (dict_setitem d k v) = insert k (fst ` set d)"
  using keys_dict_setitem [of d k v] by (metis (no_types, lifting) list.set_map set_append list.simps(15) empty_set Un_insert_right sup_bot.right_neutral insert_absorb)

lemma keys_foldl_setitem:
  "set (map fst (foldl (\<lambda>d f. dict_setitem d (key f) (val f)) d fs)) = set (map fst d) \<union> key ` set fs"
  by (induction fs arbitrary: d) (auto simp: set_keys_dict_setitem)

lemma distinct_foldl_setitem:
  "distinct (map fst d) \<Longrightarrow> distinct (map fst (foldl (\<lambda>d f. dict_setitem d (key f) (val f)) d fs))"
  by (induction fs arbitrary: d) (auto simp: keys_dict_setitem)

lemma main_data_file_find:
  "main_data_file d = map_option fst (find (\<lambda>(filename, df). \<not> contains ''Metadata'' filename) d)"
  by (induction d rule: main_data_file.induct) auto

lemma find_SomeD: "find P xs = Some x \<Longrightarrow> P x \<and> x \<in> set xs"
  by (induction xs) (auto split: if_splits)

lemma find_map_of:
  "find (\<lambda>(k, v). P k) d = Some (k, v) \<Longrightarrow> map_of d k = Some v"
  by (induction d) (auto split: if_splits dest: find_SomeD)

lemma load_keys_nonempty:
  assumes "load_all_csv_from_zip pd_read_csv z = Inr datasets"
  shows "\<forall>k \<in> fst ` set datasets. k \<noteq> []"
proof -
  from load_loop_foldl [OF assms [unfolded load_all_csv_from_zip_def]]
  have "fst ` set datasets = basename ` set (filter is_csv (namelist z))"
    using keys_foldl_setitem [of basename "\<lambda>f. projr (read_entry pd_read_csv z f)" "[]" "filter is_csv (namelist z)"]
    by simp
  then show ?thesis by (auto simp: is_csv_basename)
qed

text \<open>
  Claim C5. For every non-empty mapping the loader returns, the selector returns the first
  entry, in the mapping's order, whose name does not contain \<^verbatim>\<open>Metadata\<close>; if every
  name contains it, the selector returns the first entry of the mapping, and raises nothing.
\<close>

theorem C5_selector_first_non_metadata:
  assumes "load_all_csv_from_zip pd_read_csv z = Inr datasets" and "datasets \<noteq> []"
  shows "select_dataset datasets =
     (case find (\<lambda>(filename, df). \<not> contains ''Metadata'' filename) datasets of
        Some (filename, df) \<Rightarrow> Inr (UsingDataset filename, df)
      | None \<Rightarrow> Inr (UsingFirstDataset (fst (hd datasets)), snd (hd datasets)))"
proof (cases "find (\<lambda>(filename, df). \<not> contains ''Metadata'' filename) datasets")
  case None
  then have "main_data_file datasets = None" by (simp add: main_data_file_find)
  with None assms(2) show ?thesis
    by (cases datasets) (auto simp: select_dataset_def)
next
  case (Some e)
  obtain k v where e: "e = (k, v)" by (cases e)
  from Some e have "(k, v) \<in> set datasets" by (auto dest: find_SomeD)
  then have "k \<noteq> []" using load_keys_nonempty [OF assms(1)] by force
  moreover have "main_data_file datasets = Some k" using Some e by (simp add: main_data_file_find)
  moreover have "map_of datasets k = Some v" using Some e by (auto intro: find_map_of)
  ultimately show ?thesis using Some e by (simp add: select_dataset_def)
qed

text \<open>An archive with a metadata table first and a data table second: the data table is chosen.\<close>

theorem C5_selector_first_non_metadata_witness:
  "load_all_csv_from_zip read_csv
     [(''Metadata_Country.csv'', ''Code,Region'' @ [CHR 0x0A] @ ''A,Asia'' @ [CHR 0x0A]),
      (''dir/data.csv'', ''l1'' @ [CHR 0x0A] @ ''l2'' @ [CHR 0x0A, CHR 0x0A] @ ''l4'' @ [CHR 0x0A]
          @ ''k,2020'' @ [CHR 0x0A] @ ''A,5'' @ [CHR 0x0A])]
     = Inr [(''Metadata_Country.csv'', [(''Code'', ObjCol [Some ''A'']), (''Region'', ObjCol [Some ''Asia''])]),
            (''data.csv'', [(''k'', ObjCol [Some ''A'']), (''2020'', NumCol [Some 5])])]
   \<and> [(''Metadata_Country.csv'', [(''Code'', ObjCol [Some ''A'']), (''Region'', ObjCol [Some ''Asia''])]),
            (''data.csv'', [(''k'', ObjCol [Some ''A'']), (''2020'', NumCol [Some 5])])] \<noteq> []
   \<and> select_dataset
        [(''Metadata_Country.csv'', [(''Code'', ObjCol [Some ''A'']), (''Region'', ObjCol [Some ''Asia''])]),
         (''data.csv'', [(''k'', ObjCol [Some ''A'']), (''2020'', NumCol [Some 5])])]
      = Inr (UsingDataset ''data.csv'', [(''k'', ObjCol [Some ''A'']), (''2020'', NumCol [Some 5])])"
  (is "?load = Inr ?d \<and> _ \<and> _")
proof -
  have l: "?load = Inr ?d" by code_simp
  have n: "?d \<noteq> []" by simp
  have "select_dataset ?d =
     (case find (\<lambda>(filename, df). \<not> contains ''Metadata'' filename) ?d of
        Some (filename, df) \<Rightarrow> Inr (UsingDataset filename, df)
      | None \<Rightarrow> Inr (UsingFirstDataset (fst (hd ?d)), snd (hd ?d)))"
    by (rule C5_selector_first_non_metadata [OF l n])
  also have "\<dots> = Inr (UsingDataset ''data.csv'', [(''k'', ObjCol [Some ''A'']), (''2020'', NumCol [Some 5])])"
    by code_simp
  finally show ?thesis using l n by simp
qed



text \<open>The last element of a list with a property is the first one found from the end.\<close>

lemma find_rev_last:
  "m < length xs \<Longrightarrow> Q (xs ! m) \<Longrightarrow> (\<forall>n. m < n \<and> n < length xs \<longrightarrow> \<not> Q (xs ! n))
     \<Longrightarrow> find Q (rev xs) = Some (xs ! m)"
proof (induction xs rule: rev_induct)
  case Nil
  then show ?case by simp
next
  case (snoc x xs)
  show ?case
  proof (cases "m = length xs")
    case True
    with snoc.prems show ?thesis by simp
  next
    case False
    with snoc.prems have m: "m < length xs" by simp
    from snoc.prems(3) m have "\<not> Q ((xs @ [x]) ! length xs)"
      by (metis length_append_singleton lessI)
    then have nx: "\<not> Q x" by simp
    have "\<forall>n. m < n \<and> n < length xs \<longrightarrow> \<not> Q (xs ! n)"
    proof (intro allI impI)
      fix n assume n: "m < n \<and> n < length xs"
      with snoc.prems(3) have "\<not> Q ((xs @ [x]) ! n)" by simp
      with n show "\<not> Q (xs ! n)" by (simp add: nth_append)
    qed
    moreover from snoc.prems(2) m have "Q (xs ! m)" by (simp add: nth_append)
    ultimately have "find Q (rev xs) = Some (xs ! m)" using snoc.IH m by blast
    with nx m show ?thesis by (simp add: nth_append)
  qed
qed

lemma find_filter: "find Q (filter P xs) = find (\<lambda>x. P x \<and> Q x) xs"
  by (induction xs) auto

lemma map_of_find: "map_of xs k = map_option snd (find (\<lambda>p. fst p = k) xs)"
  by (induction xs) auto

lemma zip_open_last:
  assumes "m < length z" and "\<forall>n. m < n \<and> n < length z \<longrightarrow> fst (z ! n) \<noteq> fst (z ! m)"
  shows "zip_open z (fst (z ! m)) = Some (snd (z ! m))"
  using find_rev_last [of m z "\<lambda>p. fst p = fst (z ! m)"] assms
  by (simp add: zip_open_def map_of_find)

lemma not_distinct_filter:
  "i < j \<Longrightarrow> j < length xs \<Longrightarrow> P (xs ! i) \<Longrightarrow> P (xs ! j) \<Longrightarrow> key (xs ! i) = key (xs ! j)
     \<Longrightarrow> \<not> distinct (map key (filter P xs))"
proof (induction xs arbitrary: i j)
  case Nil
  then show ?case by simp
next
  case (Cons x xs)
  from Cons.prems(1) obtain j' where j: "j = Suc j'" by (cases j) auto
  show ?case
  proof (cases i)
    case 0
    with Cons.prems j have "P x" "P (xs ! j')" "key x = key (xs ! j')" "j' < length xs" by simp_all
    then have "key x \<in> key ` set (filter P xs)" by (metis (mono_tags, lifting) image_eqI mem_Collect_eq nth_mem set_filter)
    with \<open>P x\<close> show ?thesis by simp
  next
    case (Suc i')
    with Cons.prems j have "\<not> distinct (map key (filter P xs))"
      by (intro Cons.IH [of i' j']) simp_all
    then show ?thesis by simp
  qed
qed

text \<open>The mapping the loader returns: its keys, and the table under each key.\<close>

lemma read_entry_Inr:
  assumes "read_entry pd_read_csv z name = Inr df"
  shows "\<exists>f. zip_open z name = Some f
     \<and> pd_read_csv f (if contains ''Metadata'' name then 0 else 4) ''utf-8-sig'' = Inr df"
  using assms by (auto simp: read_entry_def split: option.splits if_splits)


lemma load_result:
  assumes "load_all_csv_from_zip pd_read_csv z = Inr datasets"
  shows "datasets = foldl (\<lambda>d f. dict_setitem d (basename f) (projr (read_entry pd_read_csv z f))) []
                      (filter is_csv (namelist z))"
    and "\<forall>f \<in> set (namelist z). is_csv f \<longrightarrow> (\<exists>df. read_entry pd_read_csv z f = Inr df)"
  using load_loop_foldl [OF assms [unfolded load_all_csv_from_zip_def]] by simp_all

lemma load_distinct:
  assumes "load_all_csv_from_zip pd_read_csv z = Inr datasets"
  shows "distinct (map fst datasets)"
  unfolding load_result(1) [OF assms] by (rule distinct_foldl_setitem) simp

lemma load_keys:
  assumes "load_all_csv_from_zip pd_read_csv z = Inr datasets"
  shows "fst ` set datasets = basename ` {f \<in> set (namelist z). is_csv f}"
  unfolding load_result(1) [OF assms]
  using keys_foldl_setitem [of basename "\<lambda>f. projr (read_entry pd_read_csv z f)" "[]" "filter is_csv (namelist z)"]
  by simp

lemma load_lookup:
  assumes "load_all_csv_from_zip pd_read_csv z = Inr datasets"
  shows "map_of datasets k =
           (case find (\<lambda>f. is_csv f \<and> basename f = k) (rev (namelist z)) of
              None \<Rightarrow> None
            | Some f \<Rightarrow> Some (projr (read_entry pd_read_csv z f)))"
  unfolding load_result(1) [OF assms]
  by (simp add: map_of_foldl_setitem rev_filter find_filter split: option.splits)

text \<open>
  Claim C10. The mapping is keyed by base name. If two CSV entries of the archive, at the
  positions \<open>i < j\<close>, have the same base name, the mapping has one table for that name,
  it has fewer keys than the archive has CSV entries, and the table kept is the one read
  from the last CSV entry \<open>m \<ge> j\<close> of that base name: the later entry replaces the earlier.
\<close>

theorem C10_basename_collision:
  assumes "load_all_csv_from_zip pd_read_csv z = Inr datasets"
    and "i < j" and "j < length z"
    and "is_csv (fst (z ! i))" and "is_csv (fst (z ! j))"
    and "basename (fst (z ! i)) = basename (fst (z ! j))"
  shows "distinct (map fst datasets)
     \<and> length datasets < length (filter is_csv (namelist z))
     \<and> (\<exists>m df. j \<le> m \<and> m < length z \<and> is_csv (fst (z ! m))
           \<and> basename (fst (z ! m)) = basename (fst (z ! j))
           \<and> (\<forall>n. m < n \<and> n < length z \<longrightarrow>
                  \<not> (is_csv (fst (z ! n)) \<and> basename (fst (z ! n)) = basename (fst (z ! j))))
           \<and> pd_read_csv (snd (z ! m)) (if contains ''Metadata'' (fst (z ! m)) then 0 else 4) ''utf-8-sig'' = Inr df
           \<and> map_of datasets (basename (fst (z ! j))) = Some df)"
proof -
  let ?K = "basename (fst (z ! j))"
  let ?Q = "\<lambda>f. is_csv f \<and> basename f = ?K"
  let ?names = "namelist z"
  have len: "length ?names = length z" and nth: "\<And>n. n < length z \<Longrightarrow> ?names ! n = fst (z ! n)"
    by (simp_all add: namelist_def)
  have dist: "distinct (map fst datasets)" by (rule load_distinct [OF assms(1)])
  have "\<not> distinct (map basename (filter is_csv ?names))"
    using assms(2-6) by (intro not_distinct_filter [of i j]) (simp_all add: len nth)
  then have "card (set (map basename (filter is_csv ?names))) < length (map basename (filter is_csv ?names))"
    by (metis card_distinct card_length le_neq_implies_less)
  moreover have "length datasets = card (fst ` set datasets)"
    using dist by (metis distinct_card length_map list.set_map)
  ultimately have short: "length datasets < length (filter is_csv ?names)"
    by (simp add: load_keys [OF assms(1)])
  define S where "S = {n. n < length z \<and> ?Q (fst (z ! n))}"
  have "finite S" "j \<in> S" using assms(3,5) by (simp_all add: S_def)
  define m where "m = Max S"
  have mS: "m \<in> S" unfolding m_def using \<open>finite S\<close> \<open>j \<in> S\<close> by (intro Max_in) auto
  have jm: "j \<le> m" unfolding m_def using \<open>finite S\<close> \<open>j \<in> S\<close> by simp
  have last: "\<forall>n. m < n \<and> n < length z \<longrightarrow> \<not> ?Q (fst (z ! n))"
  proof (intro allI impI notI)
    fix n assume "m < n \<and> n < length z" and "?Q (fst (z ! n))"
    then have "n \<in> S" by (simp add: S_def)
    then have "n \<le> m" unfolding m_def using \<open>finite S\<close> by simp
    with \<open>m < n \<and> n < length z\<close> show False by simp
  qed
  from mS have m: "m < length z" "is_csv (fst (z ! m))" "basename (fst (z ! m)) = ?K"
    by (simp_all add: S_def)
  have "find ?Q (rev ?names) = Some (?names ! m)"
    using m last by (intro find_rev_last) (simp_all add: len nth)
  then have look: "map_of datasets ?K = Some (projr (read_entry pd_read_csv z (fst (z ! m))))"
    by (simp add: load_lookup [OF assms(1)] nth m(1))
  have "fst (z ! m) \<in> set ?names" using m(1) by (metis len nth nth_mem)
  with load_result(2) [OF assms(1)] m(2) obtain df where df: "read_entry pd_read_csv z (fst (z ! m)) = Inr df"
    by blast
  have "\<forall>n. m < n \<and> n < length z \<longrightarrow> fst (z ! n) \<noteq> fst (z ! m)"
    using last m(2,3) by metis
  then have "zip_open z (fst (z ! m)) = Some (snd (z ! m))"
    using m(1) by (intro zip_open_last) simp_all
  with df have "pd_read_csv (snd (z ! m)) (if contains ''Metadata'' (fst (z ! m)) then 0 else 4) ''utf-8-sig'' = Inr df"
    by (simp add: read_entry_def split: if_splits)
  with look df jm m last dist short show ?thesis by auto
qed

text \<open>Two entries \<^verbatim>\<open>data.csv\<close> in different directories: the table of the second is kept.\<close>

theorem C10_basename_collision_witness:
  "load_all_csv_from_zip read_csv
     [(''a/data.csv'', ''1'' @ [CHR 0x0A] @ ''2'' @ [CHR 0x0A] @ ''3'' @ [CHR 0x0A] @ ''4'' @ [CHR 0x0A]
          @ ''x'' @ [CHR 0x0A] @ ''7'' @ [CHR 0x0A]),
      (''b/data.csv'', ''1'' @ [CHR 0x0A] @ ''2'' @ [CHR 0x0A] @ ''3'' @ [CHR 0x0A] @ ''4'' @ [CHR 0x0A]
          @ ''y'' @ [CHR 0x0A] @ ''8'' @ [CHR 0x0A])]
     = Inr [(''data.csv'', [(''y'', NumCol [Some 8])])]
   \<and> distinct (map fst [(''data.csv'', [(''y'', NumCol [Some (8::real)])])])
   \<and> length [(''data.csv'', [(''y'', NumCol [Some (8::real)])])] < 2"
  (is "load_all_csv_from_zip read_csv ?z = Inr ?d \<and> _ \<and> _")
proof -
  have l: "load_all_csv_from_zip read_csv ?z = Inr ?d" by code_simp
  have csv: "is_csv ''a/data.csv''" "is_csv ''b/data.csv''" by code_simp+
  have base: "basename ''a/data.csv'' = basename ''b/data.csv''" by code_simp
  have "distinct (map fst ?d) \<and> length ?d < length (filter is_csv (namelist ?z))"
    using C10_basename_collision [OF l, of 0 1] csv base by simp
  then show ?thesis using l csv by (simp add: namelist_def)
qed

text \<open>
  Claim C2, as the specification states it, fails: on an empty mapping the selection does
  fail, but with the \<^verbatim>\<open>IndexError\<close> of \<^verbatim>\<open>list(datasets.values())[0]\<close>; the script has
  no error of its own for an archive without CSV entries.
\<close>

theorem C2_empty_counterexample: "\<not> (select_dataset [] = Inl EmptyDataset)"
  by (simp add: select_dataset_def)

text \<open>
  Claim C2, amended: if the loader's mapping is empty, the selection fails with
  \<^verbatim>\<open>IndexError\<close>, the run ends there with nothing printed, and no table is returned.
\<close>

theorem C2_empty_mapping_IndexError:
  assumes "load_all_csv_from_zip pd_read_csv z = Inr []"
  shows "select_dataset [] = Inl IndexError \<and> script pd_read_csv cfg z = ([], Some IndexError)"
  using assms by (simp add: select_dataset_def script_def)

text \<open>An archive whose only entry is not a CSV file.\<close>

theorem C2_empty_mapping_IndexError_witness:
  "load_all_csv_from_zip read_csv [(''README.txt'', ''no tables here'')] = Inr []
   \<and> select_dataset [] = Inl IndexError
   \<and> script read_csv script_config [(''README.txt'', ''no tables here'')] = ([], Some IndexError)"
proof -
  have l: "load_all_csv_from_zip read_csv [(''README.txt'', ''no tables here'')] = Inr []" by code_simp
  from C2_empty_mapping_IndexError [OF l, of script_config] l show ?thesis by simp
qed

section \<open>The parsing rule of the loader\<close>

text \<open>The characters that \<^verbatim>\<open>lower()\<close> takes to the ones of \<^verbatim>\<open>.csv\<close>.\<close>

lemma of_char_nat_inj: "(of_char a :: nat) = of_char b \<longleftrightarrow> a = b"
  by (metis char_of_char)

lemma lower_char_eq_iff:
  assumes "97 \<le> (of_char l :: nat)" and "(of_char l :: nat) \<le> 122"
  shows "lower_char x = l \<longleftrightarrow> x = l \<or> x = char_of ((of_char l :: nat) - 32)"
proof -
  have up: "(of_char (char_of ((of_char l :: nat) - 32) :: char) :: nat) = of_char l - 32"
    using assms by simp
  show ?thesis
  proof (cases "65 \<le> (of_char x :: nat) \<and> (of_char x :: nat) \<le> 90")
    case True
    then have low: "lower_char x = char_of ((of_char x :: nat) + 32)"
      by (simp add: lower_char_def Let_def)
    have "(of_char (char_of ((of_char x :: nat) + 32) :: char) :: nat) = of_char x + 32"
      using True by simp
    then have "lower_char x = l \<longleftrightarrow> (of_char x :: nat) + 32 = of_char l"
      unfolding low by (metis of_char_nat_inj)
    also have "\<dots> \<longleftrightarrow> (of_char x :: nat) = of_char l - 32"
      using assms by linarith
    also have "\<dots> \<longleftrightarrow> x = char_of ((of_char l :: nat) - 32)"
      using up by (metis of_char_nat_inj)
    finally have "lower_char x = l \<longleftrightarrow> x = char_of ((of_char l :: nat) - 32)" .
    moreover have "x \<noteq> l" using True assms by auto
    ultimately show ?thesis by simp
  next
    case False
    then have "lower_char x = x" by (auto simp: lower_char_def Let_def)
    moreover have "x \<noteq> char_of ((of_char l :: nat) - 32)"
    proof
      assume "x = char_of ((of_char l :: nat) - 32)"
      then have "(of_char x :: nat) = of_char l - 32" using up by simp
      with False assms show False by linarith
    qed
    ultimately show ?thesis by auto
  qed
qed

lemma lower_char_csv:
  "lower_char x = CHR ''c'' \<longleftrightarrow> x = CHR ''c'' \<or> x = CHR ''C''"
  "lower_char x = CHR ''s'' \<longleftrightarrow> x = CHR ''s'' \<or> x = CHR ''S''"
  "lower_char x = CHR ''v'' \<longleftrightarrow> x = CHR ''v'' \<or> x = CHR ''V''"
  "lower_char x = CHR ''.'' \<longleftrightarrow> x = CHR ''.''"
proof -
  have upper: "char_of (67 :: nat) = CHR ''C''" "char_of (83 :: nat) = CHR ''S''"
    "char_of (86 :: nat) = CHR ''V''"
    by code_simp+
  show "lower_char x = CHR ''c'' \<longleftrightarrow> x = CHR ''c'' \<or> x = CHR ''C''"
    using lower_char_eq_iff [of "CHR ''c''" x] by (simp add: upper)
  show "lower_char x = CHR ''s'' \<longleftrightarrow> x = CHR ''s'' \<or> x = CHR ''S''"
    using lower_char_eq_iff [of "CHR ''s''" x] by (simp add: upper)
  show "lower_char x = CHR ''v'' \<longleftrightarrow> x = CHR ''v'' \<or> x = CHR ''V''"
    using lower_char_eq_iff [of "CHR ''v''" x] by (simp add: upper)
  show "lower_char x = CHR ''.'' \<longleftrightarrow> x = CHR ''.''"
  proof (cases "65 \<le> (of_char x :: nat) \<and> (of_char x :: nat) \<le> 90")
    case True
    then have "lower_char x = char_of ((of_char x :: nat) + 32)"
      by (simp add: lower_char_def Let_def)
    moreover have "(of_char (char_of ((of_char x :: nat) + 32) :: char) :: nat) = of_char x + 32"
      using True by simp
    ultimately have "(of_char (lower_char x) :: nat) = of_char x + 32" by simp
    then have "lower_char x \<noteq> CHR ''.''" using True by auto
    moreover have "x \<noteq> CHR ''.''" using True by auto
    ultimately show ?thesis by simp
  next
    case False
    then show ?thesis by (auto simp: lower_char_def Let_def)
  qed
qed

lemma is_csv_iff:
  "is_csv name \<longleftrightarrow>
     (\<exists>p c s v. name = p @ [CHR ''.'', c, s, v] \<and> c \<in> {CHR ''c'', CHR ''C''}
        \<and> s \<in> {CHR ''s'', CHR ''S''} \<and> v \<in> {CHR ''v'', CHR ''V''})"
proof
  assume "is_csv name"
  then obtain q where q: "map lower_char name = q @ ''.csv''"
    by (auto simp: is_csv_def endswith_def lower_def suffix_def)
  then have "length (map lower_char name) = length (q @ ''.csv'')" by simp
  then have "length name = length q + 4" by simp
  then obtain p r where pr: "name = p @ r" "length p = length q" "length r = 4"
    by (metis append_take_drop_id length_take min.absorb2 le_add1 length_drop add_diff_cancel_left')
  then obtain d c s v where r: "r = [d, c, s, v]"
    by (cases r; cases "tl r"; cases "tl (tl r)"; cases "tl (tl (tl r))") auto
  from q pr r have "map lower_char [d, c, s, v] = ''.csv''" by auto
  then show "\<exists>p c s v. name = p @ [CHR ''.'', c, s, v] \<and> c \<in> {CHR ''c'', CHR ''C''}
        \<and> s \<in> {CHR ''s'', CHR ''S''} \<and> v \<in> {CHR ''v'', CHR ''V''}"
    using pr r by (auto simp: lower_char_csv)
next
  assume "\<exists>p c s v. name = p @ [CHR ''.'', c, s, v] \<and> c \<in> {CHR ''c'', CHR ''C''}
        \<and> s \<in> {CHR ''s'', CHR ''S''} \<and> v \<in> {CHR ''v'', CHR ''V''}"
  then obtain p c s v where "name = p @ [CHR ''.'', c, s, v]" "lower_char c = CHR ''c''"
    "lower_char s = CHR ''s''" "lower_char v = CHR ''v''"
    by (auto simp: lower_char_csv)
  moreover have "lower_char (CHR ''.'') = CHR ''.''" by (simp add: lower_char_csv)
  ultimately show "is_csv name"
    by (simp add: is_csv_def endswith_def lower_def suffix_def)
qed

text \<open>
  Claim C9. When the loader returns a mapping, its keys are the base names of the entries
  whose name ends in \<^verbatim>\<open>.csv\<close>, whatever the case of the letters. Every table of the
  mapping is the one \<^verbatim>\<open>pd.read_csv\<close> gave for the bytes of such an entry, called without
  \<^verbatim>\<open>skiprows\<close> when the name of the entry contains \<^verbatim>\<open>Metadata\<close> and with
  \<^verbatim>\<open>skiprows=4\<close> otherwise, and with \<^verbatim>\<open>encoding='utf-8-sig'\<close> in both cases. Every such
  entry was read in this way into a table, and that table is the one the mapping has under
  the base name of the entry when no other CSV entry shares the base name. A name ends in
  \<^verbatim>\<open>.csv\<close> for the loader when its last four characters are a point and the letters c,
  s, v, each in either case.

  That the first row after the skipped ones is the header, and that a leading byte order
  mark is dropped, is what pandas does with these arguments; the statement holds for
  whatever \<^verbatim>\<open>pd.read_csv\<close> does, quoted fields included.
\<close>

theorem C9_loader_parsing_rule:
  assumes "load_all_csv_from_zip pd_read_csv z = Inr datasets"
  shows "fst ` set datasets = basename ` {file \<in> set (namelist z). is_csv file}
     \<and> (\<forall>(key, df) \<in> set datasets.
           \<exists>file \<in> set (namelist z). \<exists>f.
              is_csv file \<and> key = basename file \<and> zip_open z file = Some f
            \<and> pd_read_csv f (if contains ''Metadata'' file then 0 else 4) ''utf-8-sig'' = Inr df)
     \<and> (\<forall>file \<in> set (namelist z). is_csv file \<longrightarrow>
           (\<exists>f df.
              zip_open z file = Some f
            \<and> pd_read_csv f (if contains ''Metadata'' file then 0 else 4) ''utf-8-sig'' = Inr df
            \<and> ((\<forall>other \<in> set (namelist z).
                    is_csv other \<and> basename other = basename file \<longrightarrow> other = file)
                 \<longrightarrow> map_of datasets (basename file) = Some df)))
     \<and> (\<forall>name. is_csv name \<longleftrightarrow>
           (\<exists>p c s v. name = p @ [CHR ''.'', c, s, v] \<and> c \<in> {CHR ''c'', CHR ''C''}
              \<and> s \<in> {CHR ''s'', CHR ''S''} \<and> v \<in> {CHR ''v'', CHR ''V''}))"
proof (intro conjI)
  show "fst ` set datasets = basename ` {file \<in> set (namelist z). is_csv file}"
    by (rule load_keys [OF assms])
next
  show "\<forall>(key, df) \<in> set datasets.
           \<exists>file \<in> set (namelist z). \<exists>f.
              is_csv file \<and> key = basename file \<and> zip_open z file = Some f
            \<and> pd_read_csv f (if contains ''Metadata'' file then 0 else 4) ''utf-8-sig'' = Inr df"
  proof (intro ballI, clarify)
    fix key df assume "(key, df) \<in> set datasets"
    then have "map_of datasets key = Some df"
      using load_distinct [OF assms] by simp
    then obtain name where name: "find (\<lambda>f. is_csv f \<and> basename f = key) (rev (namelist z)) = Some name"
      and df: "df = projr (read_entry pd_read_csv z name)"
      by (auto simp: load_lookup [OF assms] split: option.splits)
    from find_SomeD [OF name] have ff: "is_csv name" "basename name = key" "name \<in> set (namelist z)"
      by simp_all
    with load_result(2) [OF assms] obtain df' where "read_entry pd_read_csv z name = Inr df'" by blast
    with df have rd: "read_entry pd_read_csv z name = Inr df" by simp
    from read_entry_Inr [OF rd] ff
    show "\<exists>file \<in> set (namelist z). \<exists>f.
              is_csv file \<and> key = basename file \<and> zip_open z file = Some f
            \<and> pd_read_csv f (if contains ''Metadata'' file then 0 else 4) ''utf-8-sig'' = Inr df"
      by blast
  qed
next
  show "\<forall>file \<in> set (namelist z). is_csv file \<longrightarrow>
           (\<exists>f df.
              zip_open z file = Some f
            \<and> pd_read_csv f (if contains ''Metadata'' file then 0 else 4) ''utf-8-sig'' = Inr df
            \<and> ((\<forall>other \<in> set (namelist z).
                    is_csv other \<and> basename other = basename file \<longrightarrow> other = file)
                 \<longrightarrow> map_of datasets (basename file) = Some df))"
  proof (intro ballI impI)
    fix name assume mem: "name \<in> set (namelist z)" and csv: "is_csv name"
    with load_result(2) [OF assms] obtain df where df: "read_entry pd_read_csv z name = Inr df"
      by blast
    from read_entry_Inr [OF df] obtain f where f: "zip_open z name = Some f"
      "pd_read_csv f (if contains ''Metadata'' name then 0 else 4) ''utf-8-sig'' = Inr df"
      by blast
    have "map_of datasets (basename name) = Some df"
      if only: "\<forall>other \<in> set (namelist z). is_csv other \<and> basename other = basename name \<longrightarrow> other = name"
    proof -
      from mem csv have "\<exists>x \<in> set (rev (namelist z)). is_csv x \<and> basename x = basename name"
        by auto
      then obtain other where
        other: "find (\<lambda>f. is_csv f \<and> basename f = basename name) (rev (namelist z)) = Some other"
        by (cases "find (\<lambda>f. is_csv f \<and> basename f = basename name) (rev (namelist z))")
          (auto simp: find_None_iff)
      from find_SomeD [OF other] only have "other = name" by simp
      with other df show ?thesis by (simp add: load_lookup [OF assms])
    qed
    with f show "\<exists>f df.
              zip_open z name = Some f
            \<and> pd_read_csv f (if contains ''Metadata'' name then 0 else 4) ''utf-8-sig'' = Inr df
            \<and> ((\<forall>other \<in> set (namelist z).
                    is_csv other \<and> basename other = basename name \<longrightarrow> other = name)
                 \<longrightarrow> map_of datasets (basename name) = Some df)"
      by blast
  qed
next
  show "\<forall>name. is_csv name \<longleftrightarrow>
           (\<exists>p c s v. name = p @ [CHR ''.'', c, s, v] \<and> c \<in> {CHR ''c'', CHR ''C''}
              \<and> s \<in> {CHR ''s'', CHR ''S''} \<and> v \<in> {CHR ''v'', CHR ''V''})"
    by (intro allI is_csv_iff)
qed

text \<open>
  An archive with a metadata entry, and a data entry that starts with a byte order mark
  and four lines of preamble, read with the plain text model of \<^verbatim>\<open>pd.read_csv\<close>.
\<close>

theorem C9_loader_parsing_rule_witness:
  "load_all_csv_from_zip read_csv
     [(''Metadata_Country.csv'', ''Code,Region'' @ [CHR 0x0A] @ ''A,Asia'' @ [CHR 0x0A]),
      (''dir/DATA.CSV'', BOM @ ''l1'' @ [CHR 0x0A] @ ''l2'' @ [CHR 0x0A, CHR 0x0A] @ ''l4'' @ [CHR 0x0A]
          @ ''k,2020'' @ [CHR 0x0A] @ ''A,5'' @ [CHR 0x0A])]
     = Inr [(''Metadata_Country.csv'', [(''Code'', ObjCol [Some ''A'']), (''Region'', ObjCol [Some ''Asia''])]),
            (''DATA.CSV'', [(''k'', ObjCol [Some ''A'']), (''2020'', NumCol [Some 5])])]
   \<and> (\<exists>f df.
          zip_open
            [(''Metadata_Country.csv'', ''Code,Region'' @ [CHR 0x0A] @ ''A,Asia'' @ [CHR 0x0A]),
             (''dir/DATA.CSV'', BOM @ ''l1'' @ [CHR 0x0A] @ ''l2'' @ [CHR 0x0A, CHR 0x0A] @ ''l4'' @ [CHR 0x0A]
                @ ''k,2020'' @ [CHR 0x0A] @ ''A,5'' @ [CHR 0x0A])] ''dir/DATA.CSV'' = Some f
        \<and> read_csv f 4 ''utf-8-sig'' = Inr df
        \<and> map_of [(''Metadata_Country.csv'', [(''Code'', ObjCol [Some ''A'']), (''Region'', ObjCol [Some ''Asia''])]),
                    (''DATA.CSV'', [(''k'', ObjCol [Some ''A'']), (''2020'', NumCol [Some 5])])]
             ''DATA.CSV'' = Some df)"
  (is "load_all_csv_from_zip read_csv ?z = Inr ?d \<and> ?P")
proof -
  have l: "load_all_csv_from_zip read_csv ?z = Inr ?d" by code_simp
  have mem: "''dir/DATA.CSV'' \<in> set (namelist ?z)" by (simp add: namelist_def)
  have c: "is_csv ''dir/DATA.CSV''" by code_simp
  have m: "\<not> contains ''Metadata'' ''dir/DATA.CSV''" by code_simp
  have b: "basename ''Metadata_Country.csv'' \<noteq> basename ''dir/DATA.CSV''" by code_simp
  have only: "\<forall>other \<in> set (namelist ?z).
                is_csv other \<and> basename other = basename ''dir/DATA.CSV'' \<longrightarrow> other = ''dir/DATA.CSV''"
    using b by (simp add: namelist_def)
  have base: "basename ''dir/DATA.CSV'' = ''DATA.CSV''" by code_simp
  from C9_loader_parsing_rule [OF l] have
    "\<forall>file \<in> set (namelist ?z). is_csv file \<longrightarrow>
           (\<exists>f df.
              zip_open ?z file = Some f
            \<and> read_csv f (if contains ''Metadata'' file then 0 else 4) ''utf-8-sig'' = Inr df
            \<and> ((\<forall>other \<in> set (namelist ?z).
                    is_csv other \<and> basename other = basename file \<longrightarrow> other = file)
                 \<longrightarrow> map_of ?d (basename file) = Some df))"
    by blast
  from this [rule_format, OF mem c] only m base have ?P by (simp only: if_False) blast
  with l show ?thesis by blast
qed

section \<open>float64 rounding\<close>

text \<open>Rounding to the nearest integer: integers stay, and the order is kept.\<close>

lemma round_half_even_of_int: "round_half_even (of_int k) = k"
  by (simp add: round_half_even_def)

lemma round_half_even_mono: "x \<le> y \<Longrightarrow> round_half_even x \<le> round_half_even y"
proof -
  assume xy: "x \<le> y"
  then have f: "\<lfloor>x\<rfloor> \<le> \<lfloor>y\<rfloor>" by (rule floor_mono)
  have bx: "round_half_even x \<le> \<lfloor>x\<rfloor> + 1" and by': "\<lfloor>y\<rfloor> \<le> round_half_even y"
    by (simp_all add: round_half_even_def Let_def)
  show ?thesis
  proof (cases "\<lfloor>x\<rfloor> < \<lfloor>y\<rfloor>")
    case True
    with bx by' show ?thesis by linarith
  next
    case False
    with f have e: "\<lfloor>x\<rfloor> = \<lfloor>y\<rfloor>" by simp
    with xy show ?thesis by (auto simp: round_half_even_def Let_def)
  qed
qed

lemma round_half_even_minus: "round_half_even (- x) = - round_half_even x"
proof (cases "x \<in> \<int>")
  case True
  then obtain k where "x = of_int k" by (auto elim: Ints_cases)
  then have "- x = of_int (- k)" by simp
  then show ?thesis using \<open>x = of_int k\<close> by (simp only: round_half_even_of_int)
next
  case False
  then have ne: "x \<noteq> of_int \<lfloor>x\<rfloor>"
    by (metis Ints_of_int)
  then have fl: "\<lfloor>- x\<rfloor> = - \<lfloor>x\<rfloor> - 1"
    by (simp add: floor_minus ceiling_altdef)
  show ?thesis
    unfolding round_half_even_def Let_def fl by auto
qed

text \<open>
  The binade of a number: \<^verbatim>\<open>2^e <= |x| < 2^(e+1)\<close> for \<open>e\<close> the floor of its binary
  logarithm.
\<close>

lemma powr_powi: "2 powr (real_of_int k) = (2::real) powi k"
  by (simp add: powr_real_of_int')

lemma powr_powi_Suc: "2 powr (real_of_int k + 1) = (2::real) powi (k + 1)"
  using powr_powi [of "k + 1"] by simp

lemma binade:
  assumes "x \<noteq> 0"
  shows "2 powi \<lfloor>log 2 \<bar>x\<bar>\<rfloor> \<le> \<bar>x\<bar>" and "\<bar>x\<bar> < 2 powi (\<lfloor>log 2 \<bar>x\<bar>\<rfloor> + 1)"
proof -
  from assms have pos: "0 < \<bar>x\<bar>" by simp
  have "2 powr (of_int \<lfloor>log 2 \<bar>x\<bar>\<rfloor>) \<le> \<bar>x\<bar> \<and> \<bar>x\<bar> < 2 powr (of_int (\<lfloor>log 2 \<bar>x\<bar>\<rfloor> + 1))"
    using floor_log_eq_powr_iff [OF pos, of 2 "\<lfloor>log 2 \<bar>x\<bar>\<rfloor>"] by simp
  then show "2 powi \<lfloor>log 2 \<bar>x\<bar>\<rfloor> \<le> \<bar>x\<bar>" and "\<bar>x\<bar> < 2 powi (\<lfloor>log 2 \<bar>x\<bar>\<rfloor> + 1)"
    by (simp_all add: powr_powi powr_powi_Suc)
qed



text \<open>
  The float64 numbers that are at least as large as \<open>x\<close> in absolute value are multiples
  of the unit in the last place at \<open>x\<close>; a float64 number that is at most as large is at
  most a multiple of that unit that is not larger than \<open>x\<close>.
\<close>

lemma ulp_exponent_ge: "- 1074 \<le> ulp_exponent x"
  by (simp add: ulp_exponent_def)

lemma powi_split: "q \<le> p \<Longrightarrow> (2::real) powi p = of_int (2 ^ nat (p - q)) * 2 powi q"
proof -
  assume "q \<le> p"
  have "(2::real) powi p = 2 powi ((p - q) + q)" by simp
  also have "\<dots> = 2 powi (p - q) * 2 powi q" by (rule power_int_add) simp
  also have "(2::real) powi (p - q) = 2 ^ nat (p - q)"
    using \<open>q \<le> p\<close> by (simp add: power_int_nonneg_exp)
  finally show ?thesis by simp
qed

lemma ulp_exponent_binade:
  assumes "x \<noteq> 0" and "p < ulp_exponent x"  and "- 1074 \<le> p"
  shows "2 powi (p + 53) \<le> \<bar>x\<bar>" and "ulp_exponent x = \<lfloor>log 2 \<bar>x\<bar>\<rfloor> - 52"
proof -
  from assms(2,3) have e: "- 1022 < \<lfloor>log 2 \<bar>x\<bar>\<rfloor>" by (simp add: ulp_exponent_def max_def split: if_splits)
  then show q: "ulp_exponent x = \<lfloor>log 2 \<bar>x\<bar>\<rfloor> - 52" by (simp add: ulp_exponent_def)
  with assms(2) have "p + 53 \<le> \<lfloor>log 2 \<bar>x\<bar>\<rfloor>" by simp
  then have "(2::real) powi (p + 53) \<le> 2 powi \<lfloor>log 2 \<bar>x\<bar>\<rfloor>"
    by (intro power_int_increasing) simp_all
  with binade(1) [OF assms(1)] show "2 powi (p + 53) \<le> \<bar>x\<bar>" by linarith
qed

lemma is_f64_small:
  assumes "\<bar>m\<bar> < (2::int) ^ 53"
  shows "\<bar>of_int m * 2 powi p\<bar> < (2::real) powi (p + 53)"
proof -
  from assms have "\<bar>real_of_int m\<bar> < 2 ^ 53"
    by (metis of_int_abs of_int_less_numeral_power_cancel_iff)
  then have "\<bar>real_of_int m\<bar> * 2 powi p < 2 ^ 53 * 2 powi p"
    by (intro mult_strict_right_mono) simp_all
  also have "\<dots> = 2 powi (p + 53)"
    by (simp add: power_int_add)
  finally show ?thesis by (simp add: abs_mult)
qed

lemma grid_upper:
  assumes "is_f64 b" and "x \<noteq> 0" and "\<bar>x\<bar> \<le> \<bar>b\<bar>"
  shows "\<exists>k::int. b = of_int k * 2 powi ulp_exponent x"
proof -
  from assms(1) obtain m p where m: "\<bar>m\<bar> < (2::int) ^ 53" and p: "- 1074 \<le> p"
    and b: "b = of_int m * 2 powi p"
    by (auto simp: is_f64_def)
  show ?thesis
  proof (cases "ulp_exponent x \<le> p")
    case True
    from powi_split [OF True] b have "b = of_int (m * 2 ^ nat (p - ulp_exponent x)) * 2 powi ulp_exponent x"
      by simp
    then show ?thesis by blast
  next
    case False
    then have "p < ulp_exponent x" by simp
    from ulp_exponent_binade(1) [OF assms(2) this p] is_f64_small [OF m, of p] b assms(3)
    show ?thesis by linarith
  qed
qed

lemma grid_lower:
  assumes "is_f64 a" and "x \<noteq> 0" and "\<bar>a\<bar> \<le> \<bar>x\<bar>"
  shows "\<exists>k::int. \<bar>a\<bar> \<le> of_int k * 2 powi ulp_exponent x \<and> of_int k * 2 powi ulp_exponent x \<le> \<bar>x\<bar>"
proof -
  from assms(1) obtain m p where m: "\<bar>m\<bar> < (2::int) ^ 53" and p: "- 1074 \<le> p"
    and a: "a = of_int m * 2 powi p"
    by (auto simp: is_f64_def)
  show ?thesis
  proof (cases "ulp_exponent x \<le> p")
    case True
    from powi_split [OF True] a have "\<bar>a\<bar> = of_int (\<bar>m\<bar> * 2 ^ nat (p - ulp_exponent x)) * 2 powi ulp_exponent x"
      by (simp add: abs_mult)
    with assms(3) show ?thesis
      by (intro exI [of _ "\<bar>m\<bar> * 2 ^ nat (p - ulp_exponent x)"]) simp
  next
    case False
    then have lt: "p < ulp_exponent x" by simp
    note q = ulp_exponent_binade [OF assms(2) lt p]
    have "(2::real) powi \<lfloor>log 2 \<bar>x\<bar>\<rfloor> = of_int (2 ^ nat 52) * 2 powi ulp_exponent x"
      using powi_split [of "ulp_exponent x" "\<lfloor>log 2 \<bar>x\<bar>\<rfloor>"] q(2) by simp
    moreover have "\<bar>a\<bar> \<le> 2 powi \<lfloor>log 2 \<bar>x\<bar>\<rfloor>"
    proof -
      from lt q(2) have "p + 53 \<le> \<lfloor>log 2 \<bar>x\<bar>\<rfloor>" by simp
      then have "(2::real) powi (p + 53) \<le> 2 powi \<lfloor>log 2 \<bar>x\<bar>\<rfloor>"
        by (intro power_int_increasing) simp_all
      with is_f64_small [OF m, of p] a show ?thesis by linarith
    qed
    moreover note binade(1) [OF assms(2)]
    ultimately show ?thesis
      by (intro exI [of _ "2 ^ nat 52"]) simp
  qed
qed

text \<open>
  Rounding does not cross a float64 number: a float64 number that is at most \<open>x\<close> is at
  most the rounded \<open>x\<close>, and one that is at least \<open>x\<close> is at least the rounded \<open>x\<close>. So a
  number between two float64 numbers rounds to a finite number between them, and a
  float64 number rounds to itself.
\<close>

lemma ulp_exponent_minus: "ulp_exponent (- x) = ulp_exponent x"
  by (simp add: ulp_exponent_def)

lemma nearest_f64_minus: "nearest_f64 (- x) = - nearest_f64 x"
  by (simp add: nearest_f64_def ulp_exponent_minus round_half_even_minus)

lemma nearest_f64_nonzero:
  "x \<noteq> 0 \<Longrightarrow> nearest_f64 x = of_int (round_half_even (x / 2 powi ulp_exponent x)) * 2 powi ulp_exponent x"
  by (simp add: nearest_f64_def)

lemma nearest_f64_upper_pos:
  assumes "is_f64 b" and "0 < x" and "x \<le> b"
  shows "nearest_f64 x \<le> b"
proof -
  from assms(2,3) have "x \<noteq> 0" "\<bar>x\<bar> \<le> \<bar>b\<bar>" by simp_all
  from grid_upper [OF assms(1) this] obtain k :: int where k: "b = of_int k * 2 powi ulp_exponent x"
    by blast
  have u: "0 < (2::real) powi ulp_exponent x" by simp
  from assms(3) k have "x / 2 powi ulp_exponent x \<le> of_int k"
    using u by (simp add: pos_divide_le_eq)
  then have "round_half_even (x / 2 powi ulp_exponent x) \<le> k"
    using round_half_even_mono [of "x / 2 powi ulp_exponent x" "of_int k"] by (simp add: round_half_even_of_int)
  then have "real_of_int (round_half_even (x / 2 powi ulp_exponent x)) \<le> of_int k" by simp
  then show ?thesis
    unfolding nearest_f64_nonzero [OF \<open>x \<noteq> 0\<close>] k using u by (intro mult_right_mono) simp_all
qed

lemma nearest_f64_lower_pos:
  assumes "is_f64 a" and "0 < x" and "a \<le> x"
  shows "a \<le> nearest_f64 x"
proof (cases "0 \<le> a")
  case False
  have "round_half_even 0 \<le> round_half_even (x / 2 powi ulp_exponent x)"
    using assms(2) by (intro round_half_even_mono) simp
  then have "0 \<le> round_half_even (x / 2 powi ulp_exponent x)"
    using round_half_even_of_int [of 0] by simp
  then have "0 \<le> nearest_f64 x" by (simp add: nearest_f64_def)
  with False show ?thesis by simp
next
  case True
  with assms(2,3) have "x \<noteq> 0" "\<bar>a\<bar> \<le> \<bar>x\<bar>" by simp_all
  from grid_lower [OF assms(1) this] obtain k :: int
    where k: "\<bar>a\<bar> \<le> of_int k * 2 powi ulp_exponent x" "of_int k * 2 powi ulp_exponent x \<le> \<bar>x\<bar>"
    by blast
  have u: "0 < (2::real) powi ulp_exponent x" by simp
  from k(2) assms(2) have "of_int k \<le> x / 2 powi ulp_exponent x"
    using u by (simp add: pos_le_divide_eq)
  then have "k \<le> round_half_even (x / 2 powi ulp_exponent x)"
    using round_half_even_mono [of "of_int k" "x / 2 powi ulp_exponent x"] by (simp add: round_half_even_of_int)
  then have "real_of_int k \<le> of_int (round_half_even (x / 2 powi ulp_exponent x))" by simp
  then have "of_int k * 2 powi ulp_exponent x \<le> nearest_f64 x"
    unfolding nearest_f64_nonzero [OF \<open>x \<noteq> 0\<close>] using u by (intro mult_right_mono) simp_all
  with k(1) True show ?thesis by simp
qed

lemma is_f64_minus: "is_f64 a \<Longrightarrow> is_f64 (- a)"
proof -
  assume "is_f64 a"
  then obtain m e where "\<bar>m\<bar> < (2::int) ^ 53" "- 1074 \<le> e" "e \<le> 971" "a = of_int m * 2 powi e"
    by (auto simp: is_f64_def)
  then have "\<bar>- m\<bar> < (2::int) ^ 53 \<and> - 1074 \<le> e \<and> e \<le> 971 \<and> - a = of_int (- m) * 2 powi e"
    by simp
  then show ?thesis unfolding is_f64_def by blast
qed

lemma nearest_f64_0: "nearest_f64 0 = 0"
  by (simp add: nearest_f64_def)

lemma nearest_f64_upper:
  assumes "is_f64 b" and "x \<le> b"
  shows "nearest_f64 x \<le> b"
proof -
  consider "0 < x" | "x = 0" | "x < 0" by linarith
  then show ?thesis
  proof cases
    case 1
    then show ?thesis using assms by (intro nearest_f64_upper_pos)
  next
    case 2
    with assms show ?thesis by (simp add: nearest_f64_0)
  next
    case 3
    have "- b \<le> nearest_f64 (- x)"
      using assms 3 by (intro nearest_f64_lower_pos is_f64_minus) simp_all
    then show ?thesis by (simp add: nearest_f64_minus)
  qed
qed

lemma nearest_f64_lower:
  assumes "is_f64 a" and "a \<le> x"
  shows "a \<le> nearest_f64 x"
proof -
  have "nearest_f64 (- x) \<le> - a"
    using assms by (intro nearest_f64_upper is_f64_minus) simp_all
  then show ?thesis by (simp add: nearest_f64_minus)
qed

lemma is_f64_bound:
  assumes "is_f64 a"
  shows "\<bar>a\<bar> < 2 ^ 1024"
proof -
  from assms obtain m e where m: "\<bar>m\<bar> < (2::int) ^ 53" and e: "e \<le> 971" and a: "a = of_int m * 2 powi e"
    by (auto simp: is_f64_def)
  have "\<bar>a\<bar> < (2::real) powi (e + 53)"
    unfolding a by (rule is_f64_small [OF m])
  also have "\<dots> \<le> 2 powi 1024"
    using e by (intro power_int_increasing) simp_all
  finally show ?thesis by simp
qed


lemma round_f64_between:
  assumes "is_f64 a" and "is_f64 b" and "a \<le> x" and "x \<le> b"
  shows "\<exists>r. round_f64 x = Some r \<and> a \<le> r \<and> r \<le> b"
proof -
  note lo = nearest_f64_lower [OF assms(1,3)] and hi = nearest_f64_upper [OF assms(2,4)]
  from is_f64_bound [OF assms(1)] is_f64_bound [OF assms(2)] lo hi
  have "\<bar>nearest_f64 x\<bar> < 2 ^ 1024" by linarith
  with lo hi show ?thesis by (simp add: round_f64_def)
qed

lemma round_f64_exact: "is_f64 x \<Longrightarrow> round_f64 x = Some x"
  using round_f64_between [of x x x] by auto


text \<open>Integers up to \<open>2\<^sup>5\<^sup>3\<close> are float64 numbers, and so is the double of a float64 below \<open>2\<^sup>1\<^sup>0\<^sup>2\<^sup>3\<close>.\<close>

lemma is_f64_dyadic:
  "\<bar>m\<bar> < (2::int) ^ 53 \<Longrightarrow> - 1074 \<le> e \<Longrightarrow> e \<le> 971 \<Longrightarrow> is_f64 (of_int m * 2 powi e)"
  unfolding is_f64_def by blast

lemma is_f64_of_int:
  assumes "\<bar>k\<bar> \<le> (2::int) ^ 53"
  shows "is_f64 (of_int k)"
proof (cases "\<bar>k\<bar> < 2 ^ 53")
  case True
  from is_f64_dyadic [OF True, of 0] show ?thesis by simp
next
  case False
  with assms have "k = 2 ^ 53 \<or> k = - (2 ^ 53)" by linarith
  then have "real_of_int k = of_int (k div 2) * 2 powi 1" and "\<bar>k div 2\<bar> < 2 ^ 53"
    by auto
  with is_f64_dyadic [of "k div 2" 1] show ?thesis by simp
qed

lemma round_f64_of_int: "\<bar>k\<bar> \<le> (2::int) ^ 53 \<Longrightarrow> round_f64 (of_int k) = Some (of_int k)"
  by (intro round_f64_exact is_f64_of_int)

lemma round_f64_numeral:
  "(numeral n :: int) \<le> 2 ^ 53 \<Longrightarrow> round_f64 (numeral n) = Some (numeral n)"
  using round_f64_of_int [of "numeral n"] by simp




section \<open>The summary statistics\<close>







lemma f64_add_Some: "f64_add (Some a) (Some b) = round_f64 (a + b)"
  by (simp add: f64_add_def)

lemma f64_div_Some: "b \<noteq> 0 \<Longrightarrow> f64_div (Some a) (Some b) = round_f64 (a / b)"
  by (simp add: f64_div_def)










section \<open>The two visualization paths\<close>

text \<open>
  Claim C3, as the specification states it, fails. With the column for binning absent and
  a categorical column configured, the script prints no diagnostic and draws the bar chart
  of the categorical column.
\<close>

theorem C3_binning_column_absent_counterexample:
  "CONTINUOUS_COLUMN_FOR_BINNING
      \<lparr>categorical_column = Some ''Country Name'', continuous_column = None,
       CREATE_CATEGORICAL_FROM_CONTINUOUS = True, CONTINUOUS_COLUMN_FOR_BINNING = ''2020''\<rparr>
     \<notin> set (map fst [(''Country Name'', ObjCol [Some ''A'', Some ''B''])])
   \<and> \<not> list_ex is_diagnostic
        (fst (visualize
           \<lparr>categorical_column = Some ''Country Name'', continuous_column = None,
            CREATE_CATEGORICAL_FROM_CONTINUOUS = True, CONTINUOUS_COLUMN_FOR_BINNING = ''2020''\<rparr>
           [(''Country Name'', ObjCol [Some ''A'', Some ''B''])]))
   \<and> list_ex is_bar_chart
        (fst (visualize
           \<lparr>categorical_column = Some ''Country Name'', continuous_column = None,
            CREATE_CATEGORICAL_FROM_CONTINUOUS = True, CONTINUOUS_COLUMN_FOR_BINNING = ''2020''\<rparr>
           [(''Country Name'', ObjCol [Some ''A'', Some ''B''])]))"
  by (simp add: visualize_def categorical_part_def continuous_part_def truthy_def
        visualize_categorical_def dropna_def Let_def)

lemma continuous_part_absent:
  assumes "continuous_column cfg = Some c" and "c \<noteq> []" and "c \<notin> set (map fst df)"
  shows "continuous_part cfg df = [WarnContinuousNotFound c (map fst df)]"
proof -
  from assms(3) have "map_of df c = None" by (simp add: map_of_eq_None_iff)
  with assms(1,2) show ?thesis by (simp add: continuous_part_def)
qed

lemma continuous_part_no_bar_chart: "\<not> list_ex is_bar_chart (continuous_part cfg df)"
  by (auto simp: continuous_part_def visualize_continuous_def Let_def
        split: option.splits column.splits)

lemma visualize_categorical_charts:
  "visualize_categorical series name top_n = (es, err) \<Longrightarrow> BarChart t s n \<in> set es
     \<Longrightarrow> t = name \<and> n = top_n"
  by (auto simp: visualize_categorical_def Let_def split: if_splits)

text \<open>
  Claim C3, amended: if the column configured for binning is absent from the selected
  table, no chart is drawn from bins, and the block of lines 137 to 164 goes on to the
  plain categorical path: it prints nothing and raises nothing when no categorical column
  is configured; it prints that the column was not found when one is configured and
  absent; and it draws the bar chart of that column when it is configured and present
  with at least one value. With the script's own configuration, where the continuous
  column is the same column \<^verbatim>\<open>2020\<close>, all the run prints is the warning of the
  continuous path that the column was not found, and it ends without an exception.
\<close>

theorem C3_binning_column_absent:
  assumes "CONTINUOUS_COLUMN_FOR_BINNING cfg \<notin> set (map fst df)"
  shows "(\<forall>series. BarChart (CONTINUOUS_COLUMN_FOR_BINNING cfg @ '' (Population Size Categories)'')
                    series 10 \<notin> set (fst (visualize cfg df)))
     \<and> (\<not> truthy (categorical_column cfg) \<longrightarrow> categorical_part cfg df = ([], None))
     \<and> (\<forall>c. categorical_column cfg = Some c \<and> c \<noteq> [] \<longrightarrow>
           (case map_of df c of
              None \<Rightarrow>
                categorical_part cfg df = ([WarnCategoricalNotFound c (map fst df)], None)
            | Some col \<Rightarrow>
                0 < column_count col \<longrightarrow>
                categorical_part cfg df =
                  ([VisualizingCategorical c, BarChart c (dropna_column col) 30,
                    CategoricalSummary c (column_nunique (dropna_column col))
                      (column_count (dropna_column col))], None)))
     \<and> (cfg = script_config \<longrightarrow>
           visualize cfg df = ([WarnContinuousNotFound ''2020'' (map fst df)], None))"
proof -
  have cat: "categorical_part cfg df =
       (if truthy (categorical_column cfg) then
          (case map_of df (the (categorical_column cfg)) of
             None \<Rightarrow> ([WarnCategoricalNotFound (the (categorical_column cfg)) (map fst df)], None)
           | Some col \<Rightarrow>
               (case visualize_categorical col (the (categorical_column cfg)) 30 of
                  (es, err) \<Rightarrow> (VisualizingCategorical (the (categorical_column cfg)) # es, err)))
        else ([], None))"
    using assms by (simp add: categorical_part_def Let_def)
  have "\<And>series. BarChart (CONTINUOUS_COLUMN_FOR_BINNING cfg @ '' (Population Size Categories)'')
                    series 10 \<notin> set (fst (categorical_part cfg df))"
    by (auto simp: cat split: option.splits prod.splits dest: visualize_categorical_charts)
  moreover have "\<And>name series n. BarChart name series n \<notin> set (continuous_part cfg df)"
    using continuous_part_no_bar_chart [of cfg df] by (auto simp: list_ex_iff)
  ultimately have 1: "\<forall>series. BarChart (CONTINUOUS_COLUMN_FOR_BINNING cfg @ '' (Population Size Categories)'')
                    series 10 \<notin> set (fst (visualize cfg df))"
    by (cases "categorical_part cfg df") (simp add: visualize_def)
  have 2: "\<not> truthy (categorical_column cfg) \<longrightarrow> categorical_part cfg df = ([], None)"
    by (simp add: cat)
  have nonempty: "\<And>col. 0 < column_count col \<Longrightarrow> \<not> value_counts_empty (dropna_column col)"
  proof -
    fix col assume "0 < column_count col"
    then show "\<not> value_counts_empty (dropna_column col)"
      by (cases col) (auto simp: dropna_def filter_empty_conv)
  qed
  have 3: "\<forall>c. categorical_column cfg = Some c \<and> c \<noteq> [] \<longrightarrow>
           (case map_of df c of
              None \<Rightarrow>
                categorical_part cfg df = ([WarnCategoricalNotFound c (map fst df)], None)
            | Some col \<Rightarrow>
                0 < column_count col \<longrightarrow>
                categorical_part cfg df =
                  ([VisualizingCategorical c, BarChart c (dropna_column col) 30,
                    CategoricalSummary c (column_nunique (dropna_column col))
                      (column_count (dropna_column col))], None))"
    by (auto simp: cat truthy_def visualize_categorical_def Let_def nonempty split: option.splits)
  have 4: "cfg = script_config \<longrightarrow>
           visualize cfg df = ([WarnContinuousNotFound ''2020'' (map fst df)], None)"
  proof
    assume c: "cfg = script_config"
    with assms have "''2020'' \<notin> set (map fst df)" by (simp add: script_config_def)
    then have "continuous_part cfg df = [WarnContinuousNotFound ''2020'' (map fst df)]"
      using c by (intro continuous_part_absent) (simp_all add: script_config_def)
    moreover from c have "categorical_column cfg = None" by (simp add: script_config_def)
    then have "categorical_part cfg df = ([], None)"
      by (simp add: cat truthy_def)
    ultimately show "visualize cfg df = ([WarnContinuousNotFound ''2020'' (map fst df)], None)"
      by (simp add: visualize_def)
  qed
  from 1 2 3 4 show ?thesis by blast
qed

text \<open>
  A table without the column \<^verbatim>\<open>2020\<close>: with a categorical column configured, and with
  the script's own configuration.
\<close>

theorem C3_binning_column_absent_witness:
  "CONTINUOUS_COLUMN_FOR_BINNING
      \<lparr>categorical_column = Some ''Country Name'', continuous_column = None,
       CREATE_CATEGORICAL_FROM_CONTINUOUS = True, CONTINUOUS_COLUMN_FOR_BINNING = ''2020''\<rparr>
     \<notin> set (map fst [(''Country Name'', ObjCol [Some ''A'', Some ''B''])])
   \<and> categorical_part
        \<lparr>categorical_column = Some ''Country Name'', continuous_column = None,
         CREATE_CATEGORICAL_FROM_CONTINUOUS = True, CONTINUOUS_COLUMN_FOR_BINNING = ''2020''\<rparr>
        [(''Country Name'', ObjCol [Some ''A'', Some ''B''])]
      = ([VisualizingCategorical ''Country Name'',
          BarChart ''Country Name'' (ObjCol [Some ''A'', Some ''B'']) 30,
          CategoricalSummary ''Country Name'' 2 2], None)
   \<and> CONTINUOUS_COLUMN_FOR_BINNING script_config
     \<notin> set (map fst [(''Country Name'', ObjCol [Some ''A'', Some ''B''])])
   \<and> categorical_part script_config [(''Country Name'', ObjCol [Some ''A'', Some ''B''])]
      = ([], None)
   \<and> visualize script_config [(''Country Name'', ObjCol [Some ''A'', Some ''B''])]
      = ([WarnContinuousNotFound ''2020'' [''Country Name'']], None)"
  (is "?b \<notin> set (map fst ?df) \<and> _ \<and> _ \<and> _ \<and> _")
proof -
  have a: "?b \<notin> set (map fst ?df)" by simp
  have b: "CONTINUOUS_COLUMN_FOR_BINNING script_config \<notin> set (map fst ?df)"
    by (simp add: script_config_def)
  have c: "\<not> truthy (categorical_column script_config)"
    by (simp add: script_config_def truthy_def)
  from C3_binning_column_absent [OF a] C3_binning_column_absent [OF b] b c show ?thesis
    by (simp add: dropna_def)
qed

text \<open>
  Claim C8, as the specification states it, fails: the column for binning can exist and
  still give no bar chart. Here it holds text, and the script prints that it cannot create
  categories from it.
\<close>

theorem C8_continuous_absent_counterexample:
  "''2019'' \<notin> set (map fst [(''Country Name'', ObjCol [Some ''A'', Some ''B''])])
   \<and> ''Country Name'' \<in> set (map fst [(''Country Name'', ObjCol [Some ''A'', Some ''B''])])
   \<and> visualize
        \<lparr>categorical_column = None, continuous_column = Some ''2019'',
         CREATE_CATEGORICAL_FROM_CONTINUOUS = True,
         CONTINUOUS_COLUMN_FOR_BINNING = ''Country Name''\<rparr>
        [(''Country Name'', ObjCol [Some ''A'', Some ''B''])]
      = ([WarnContinuousNotFound ''2019'' [''Country Name''],
          CannotCreateCategories ''Country Name''], None)
   \<and> \<not> list_ex is_bar_chart
        (fst (visualize
           \<lparr>categorical_column = None, continuous_column = Some ''2019'',
            CREATE_CATEGORICAL_FROM_CONTINUOUS = True,
            CONTINUOUS_COLUMN_FOR_BINNING = ''Country Name''\<rparr>
           [(''Country Name'', ObjCol [Some ''A'', Some ''B''])]))"
  by (simp add: visualize_def categorical_part_def continuous_part_def Let_def)

lemma categorical_part_no_histogram: "\<not> list_ex is_histogram (fst (categorical_part cfg df))"
  by (auto simp: categorical_part_def visualize_categorical_def Let_def
        split: option.splits sum.splits)

text \<open>
  Claim C8, amended: when \<^verbatim>\<open>continuous_column\<close> is configured and absent from the selected
  table, a warning is printed and no histogram is drawn, and the binning path still
  runs whenever binning is switched on and its own column exists. It draws its bar chart
  when that column is numeric, and prints that it cannot create categories when the column
  is not numeric and not named \<^verbatim>\<open>2020\<close>.
\<close>

theorem C8_continuous_absent_binning_runs:
  assumes "continuous_column cfg = Some c" and "c \<noteq> []" and "c \<notin> set (map fst df)"
    and "CREATE_CATEGORICAL_FROM_CONTINUOUS cfg"
    and "map_of df (CONTINUOUS_COLUMN_FOR_BINNING cfg) = Some col"
  shows "(\<exists>es. fst (visualize cfg df) = WarnContinuousNotFound c (map fst df) # es
              \<and> \<not> list_ex is_histogram es)
     \<and> (\<forall>series. col = NumCol series \<longrightarrow>
           visualize cfg df =
             ([WarnContinuousNotFound c (map fst df),
               VisualizingCategorical
                 (CONTINUOUS_COLUMN_FOR_BINNING cfg @ '' (Population Size Categories)''),
               BarChart (CONTINUOUS_COLUMN_FOR_BINNING cfg @ '' (Population Size Categories)'')
                 (dropna_column (CatCol (categorical_series (dropna series)))) 10,
               CategoricalSummary
                 (CONTINUOUS_COLUMN_FOR_BINNING cfg @ '' (Population Size Categories)'')
                 (column_nunique (dropna_column (CatCol (categorical_series (dropna series)))))
                 (column_count (dropna_column (CatCol (categorical_series (dropna series)))))],
              None))
     \<and> (\<not> is_numeric_dtype col \<and> CONTINUOUS_COLUMN_FOR_BINNING cfg \<noteq> ''2020'' \<longrightarrow>
           visualize cfg df =
             ([WarnContinuousNotFound c (map fst df),
               CannotCreateCategories (CONTINUOUS_COLUMN_FOR_BINNING cfg)], None))"
proof -
  note cont = continuous_part_absent [OF assms(1-3)]
  from assms(5) have mem: "CONTINUOUS_COLUMN_FOR_BINNING cfg \<in> set (map fst df)"
    by (metis domI dom_map_of_conv_image_fst list.set_map)
  have 1: "\<exists>es. fst (visualize cfg df) = WarnContinuousNotFound c (map fst df) # es
              \<and> \<not> list_ex is_histogram es"
    using categorical_part_no_histogram [of cfg df]
    by (cases "categorical_part cfg df") (simp add: visualize_def cont)
  have 2: "\<forall>series. col = NumCol series \<longrightarrow>
           visualize cfg df =
             ([WarnContinuousNotFound c (map fst df),
               VisualizingCategorical
                 (CONTINUOUS_COLUMN_FOR_BINNING cfg @ '' (Population Size Categories)''),
               BarChart (CONTINUOUS_COLUMN_FOR_BINNING cfg @ '' (Population Size Categories)'')
                 (dropna_column (CatCol (categorical_series (dropna series)))) 10,
               CategoricalSummary
                 (CONTINUOUS_COLUMN_FOR_BINNING cfg @ '' (Population Size Categories)'')
                 (column_nunique (dropna_column (CatCol (categorical_series (dropna series)))))
                 (column_count (dropna_column (CatCol (categorical_series (dropna series)))))],
              None)"
    using assms(4,5) mem
    by (simp add: visualize_def cont categorical_part_def visualize_categorical_def Let_def)
  have 3: "\<not> is_numeric_dtype col \<and> CONTINUOUS_COLUMN_FOR_BINNING cfg \<noteq> ''2020'' \<longrightarrow>
           visualize cfg df =
             ([WarnContinuousNotFound c (map fst df),
               CannotCreateCategories (CONTINUOUS_COLUMN_FOR_BINNING cfg)], None)"
    using assms(4,5) mem by (simp add: visualize_def cont categorical_part_def Let_def)
  from 1 2 3 show ?thesis by blast
qed

text \<open>The continuous column \<^verbatim>\<open>2019\<close> is absent; the binning column \<^verbatim>\<open>2020\<close> is numeric.\<close>

theorem C8_continuous_absent_binning_runs_witness:
  "visualize
     \<lparr>categorical_column = None, continuous_column = Some ''2019'',
      CREATE_CATEGORICAL_FROM_CONTINUOUS = True, CONTINUOUS_COLUMN_FOR_BINNING = ''2020''\<rparr>
     [(''Country Name'', ObjCol [Some ''A'', Some ''B'']),
      (''2020'', NumCol [Some 2000000, None])]
   = ([WarnContinuousNotFound ''2019'' [''Country Name'', ''2020''],
       VisualizingCategorical ''2020 (Population Size Categories)'',
       BarChart ''2020 (Population Size Categories)'' (CatCol [Some ''1M - 5M'']) 10,
       CategoricalSummary ''2020 (Population Size Categories)'' 1 1], None)"
  (is "visualize ?cfg ?df = _")
proof -
  have a: "continuous_column ?cfg = Some ''2019''" "''2019'' \<noteq> []"
    "''2019'' \<notin> set (map fst ?df)" "CREATE_CATEGORICAL_FROM_CONTINUOUS ?cfg"
    "map_of ?df (CONTINUOUS_COLUMN_FOR_BINNING ?cfg) = Some (NumCol [Some 2000000, None])"
    by simp_all
  from C8_continuous_absent_binning_runs [OF a] show ?thesis
    by (simp add: visualize_categorical_def categorical_series_def pd_cut_script dropna_def Let_def)
qed

section \<open>The end-to-end scenario\<close>

text \<open>The first lines of a text, and what is left when four of them are skipped.\<close>

lemma split_on_not_Nil: "split_on d s \<noteq> []"
  by (induction s) (auto split: list.splits)

lemma split_on_first:
  "d \<notin> set b \<Longrightarrow> split_on d (b @ d # s) = b # split_on d s"
  by (induction b) (auto simp: split_on_not_Nil split: list.splits)

lemma universal_newlines_Cons:
  "c \<noteq> CHR 0x0D \<Longrightarrow> universal_newlines (c # s) = c # universal_newlines s"
  by (cases s) simp_all

lemma universal_newlines_first:
  "CHR 0x0D \<notin> set b \<Longrightarrow>
     universal_newlines (b @ CHR 0x0A # s) = b @ CHR 0x0A # universal_newlines s"
  by (induction b) (simp_all add: universal_newlines_Cons universal_newlines_Cons [OF not_sym])

lemma split_lines_first:
  assumes "CHR 0x0A \<notin> set b" and "CHR 0x0D \<notin> set b"
  shows "split_lines (b @ CHR 0x0A # s) = b # split_lines s"
  using assms by (simp add: split_lines_def universal_newlines_first split_on_first)

lemma decode_utf8_sig_first:
  assumes "CHR 0x0A \<notin> set b"
  shows "\<exists>b'. decode_utf8_sig (b @ CHR 0x0A # s) = b' @ CHR 0x0A # s \<and> set b' \<subseteq> set b"
proof (cases "prefix BOM (b @ CHR 0x0A # s)")
  case False
  then show ?thesis by (auto simp: decode_utf8_sig_def)
next
  case True
  then have "\<exists>b''. b = BOM @ b''"
    by (cases b; cases "tl b"; cases "tl (tl b)") (auto simp: BOM_def)
  then obtain b'' where "b = BOM @ b''" by blast
  with True show ?thesis
    by (intro exI [of _ b'']) (auto simp: decode_utf8_sig_def BOM_def)
qed

lemma skip_four_lines:
  assumes "\<forall>b \<in> set [b1, b2, b3, b4]. CHR 0x0A \<notin> set b \<and> CHR 0x0D \<notin> set b"
  shows "drop 4 (split_lines (decode_utf8_sig
           (b1 @ CHR 0x0A # b2 @ CHR 0x0A # b3 @ CHR 0x0A # b4 @ CHR 0x0A # s))) = split_lines s"
proof -
  from assms have b: "CHR 0x0A \<notin> set b1" "CHR 0x0D \<notin> set b1" "CHR 0x0A \<notin> set b2" "CHR 0x0D \<notin> set b2"
    "CHR 0x0A \<notin> set b3" "CHR 0x0D \<notin> set b3" "CHR 0x0A \<notin> set b4" "CHR 0x0D \<notin> set b4"
    by simp_all
  from decode_utf8_sig_first [OF b(1)] obtain b' where
    b': "decode_utf8_sig (b1 @ CHR 0x0A # b2 @ CHR 0x0A # b3 @ CHR 0x0A # b4 @ CHR 0x0A # s)
           = b' @ CHR 0x0A # b2 @ CHR 0x0A # b3 @ CHR 0x0A # b4 @ CHR 0x0A # s"
    and sub: "set b' \<subseteq> set b1" by blast
  from sub b(1,2) have "CHR 0x0A \<notin> set b'" "CHR 0x0D \<notin> set b'" by auto
  then show ?thesis
    unfolding b' using b by (simp add: split_lines_first)
qed

lemma contains_basename: "contains t (basename p) \<Longrightarrow> contains t p"
proof -
  have "p = rev (dropWhile (\<lambda>c. c \<noteq> CHR ''/'') (rev p)) @ basename p"
    unfolding basename_def by (metis rev_append rev_rev_ident takeWhile_dropWhile_id)
  then have "suffix (basename p) p" by (metis suffixI)
  then show "contains t (basename p) \<Longrightarrow> contains t p"
    unfolding contains_def by (metis suffix_imp_sublist sublist_order.order_trans)
qed

lemma select_single:
  assumes "is_csv name" and "\<not> contains ''Metadata'' name"
  shows "select_dataset [(basename name, df)] = Inr (UsingDataset (basename name), df)"
  using assms is_csv_basename [OF assms(1)] contains_basename [of "''Metadata''" name]
  by (auto simp: select_dataset_def)

lemma decode_sig: "decode ''utf-8-sig'' bs = decode_utf8_sig bs"
  by (simp add: decode_def)

text \<open>The table of the scenario, read step by step, and the charts drawn from it.\<close>

lemma scenario_lines:
  "split_lines (decode_utf8_sig (''Country Name,Country Code,2019,2020'' @ CHR 0x0A #
               ''A,AAA,100,2000000'' @ CHR 0x0A # ''B,BBB,200,6000000'' @ [CHR 0x0A]))
   = [''Country Name,Country Code,2019,2020'', ''A,AAA,100,2000000'', ''B,BBB,200,6000000'', []]"
  by code_simp

lemma scenario_fields:
  "split_on (CHR '','') ''Country Name,Country Code,2019,2020''
     = [''Country Name'', ''Country Code'', ''2019'', ''2020'']"
  "split_on (CHR '','') ''A,AAA,100,2000000'' = [''A'', ''AAA'', ''100'', ''2000000'']"
  "split_on (CHR '','') ''B,BBB,200,6000000'' = [''B'', ''BBB'', ''200'', ''6000000'']"
  by code_simp+

lemma scenario_header:
  "header_names [''Country Name'', ''Country Code'', ''2019'', ''2020'']
     = [''Country Name'', ''Country Code'', ''2019'', ''2020'']"
  by code_simp

lemma scenario_columns:
  "infer_column [''A'', ''B''] = ObjCol [Some ''A'', Some ''B'']"
  "infer_column [''AAA'', ''BBB''] = ObjCol [Some ''AAA'', Some ''BBB'']"
  "infer_column [''100'', ''200''] = NumCol [Some 100, Some 200]"
  "infer_column [''2000000'', ''6000000''] = NumCol [Some 2000000, Some 6000000]"
  by (simp_all add: infer_column_def na_values_def parse_number_def parse_unsigned_def
        is_digit_def digits_value_def)

lemma scenario_table:
  "read_csv (''Country Name,Country Code,2019,2020'' @ CHR 0x0A #
               ''A,AAA,100,2000000'' @ CHR 0x0A # ''B,BBB,200,6000000'' @ [CHR 0x0A])
      0 ''utf-8-sig''
   = Inr [(''Country Name'', ObjCol [Some ''A'', Some ''B'']),
          (''Country Code'', ObjCol [Some ''AAA'', Some ''BBB'']),
          (''2019'', NumCol [Some 100, Some 200]),
          (''2020'', NumCol [Some 2000000, Some 6000000])]"
  unfolding read_csv_def decode_sig scenario_lines
  by (simp add: blank_def scenario_fields scenario_header scenario_columns upt_rec [of 0]
        upt_rec [of 1] upt_rec [of 2] upt_rec [of 3])

lemma scenario_statistics:
  "series_mean [2000000, 6000000] = Some 4000000"
  "series_median [2000000, 6000000] = Some 4000000"
  by (simp_all add: series_mean_def series_sum_def series_median_def f64_add_Some f64_div_Some
        round_f64_numeral)

lemma scenario_visualize:
  "visualize script_config
     [(''Country Name'', ObjCol [Some ''A'', Some ''B'']),
      (''Country Code'', ObjCol [Some ''AAA'', Some ''BBB'']),
      (''2019'', NumCol [Some 100, Some 200]),
      (''2020'', NumCol [Some 2000000, Some 6000000])]
   = ([VisualizingContinuous ''2020'',
       Histogram ''2020'' [2000000, 6000000],
       SummaryStatistics ''2020''
         \<lparr>count = 2, mean = Some 4000000, median = Some 4000000, minimum = Some 2000000,
          maximum = Some 6000000, std = series_std [2000000, 6000000]\<rparr>,
       VisualizingCategorical ''2020 (Population Size Categories)'',
       BarChart ''2020 (Population Size Categories)''
         (CatCol [Some ''1M - 5M'', Some ''5M - 10M'']) 10,
       CategoricalSummary ''2020 (Population Size Categories)'' 2 2], None)"
  by (simp add: visualize_def categorical_part_def continuous_part_def script_config_def
        visualize_continuous_def visualize_categorical_def dropna_def scenario_statistics
        series_min_def series_max_def categorical_series_def pd_cut_script Let_def)

text \<open>
  Claim C7. An archive with one data entry: four lines of preamble, the header
  \<^verbatim>\<open>Country Name,Country Code,2019,2020\<close> and the rows \<^verbatim>\<open>A,AAA,100,2000000\<close> and
  \<^verbatim>\<open>B,BBB,200,6000000\<close>. With the script's configuration (the continuous column and the
  column for binning are both \<^verbatim>\<open>2020\<close>) the summary has count 2, mean 4000000, minimum
  2000000 and maximum 6000000, and the derived categorical series is
  \<^verbatim>\<open>1M - 5M\<close>, \<^verbatim>\<open>5M - 10M\<close>.
\<close>

theorem C7_end_to_end:
  assumes "is_csv name" and "\<not> contains ''Metadata'' name"
    and "\<forall>b \<in> set [b1, b2, b3, b4]. CHR 0x0A \<notin> set b \<and> CHR 0x0D \<notin> set b"
  shows "script read_csv script_config
           [(name, b1 @ CHR 0x0A # b2 @ CHR 0x0A # b3 @ CHR 0x0A # b4 @ CHR 0x0A #
                   ''Country Name,Country Code,2019,2020'' @ CHR 0x0A #
                   ''A,AAA,100,2000000'' @ CHR 0x0A # ''B,BBB,200,6000000'' @ [CHR 0x0A])]
         = ([UsingDataset (basename name),
             VisualizingContinuous ''2020'',
             Histogram ''2020'' [2000000, 6000000],
             SummaryStatistics ''2020''
               \<lparr>count = 2, mean = Some 4000000, median = Some 4000000, minimum = Some 2000000,
                maximum = Some 6000000, std = series_std [2000000, 6000000]\<rparr>,
             VisualizingCategorical ''2020 (Population Size Categories)'',
             BarChart ''2020 (Population Size Categories)''
               (CatCol [Some ''1M - 5M'', Some ''5M - 10M'']) 10,
             CategoricalSummary ''2020 (Population Size Categories)'' 2 2], None)"
  (is "script read_csv script_config [(name, ?content)] = _")
proof -
  let ?text = "''Country Name,Country Code,2019,2020'' @ CHR 0x0A #
               ''A,AAA,100,2000000'' @ CHR 0x0A # ''B,BBB,200,6000000'' @ [CHR 0x0A]"
  let ?table = "[(''Country Name'', ObjCol [Some ''A'', Some ''B'']),
          (''Country Code'', ObjCol [Some ''AAA'', Some ''BBB'']),
          (''2019'', NumCol [Some 100, Some 200]),
          (''2020'', NumCol [Some 2000000, Some 6000000])]"
  have "decode_utf8_sig ?text = ?text" by (simp add: decode_utf8_sig_def BOM_def)
  then have "drop 4 (split_lines (decode_utf8_sig ?content))
               = drop 0 (split_lines (decode_utf8_sig ?text))"
    using skip_four_lines [OF assms(3), of ?text] by simp
  then have "read_csv ?content 4 ''utf-8-sig'' = read_csv ?text 0 ''utf-8-sig''"
    unfolding read_csv_def decode_sig by (rule arg_cong)
  then have rd: "read_csv ?content 4 ''utf-8-sig'' = Inr ?table"
    by (simp only: scenario_table)
  have ld: "load_all_csv_from_zip read_csv [(name, ?content)] = Inr [(basename name, ?table)]"
    using assms(1,2) rd
    by (simp add: load_all_csv_from_zip_def namelist_def read_entry_def zip_open_def)
  show ?thesis
    unfolding script_def ld
    by (simp only: select_single [OF assms(1,2)] scenario_visualize sum.case prod.case)
qed

text \<open>The preamble of a World Bank file.\<close>

theorem C7_end_to_end_witness:
  "is_csv ''API_SP.POP.TOTL_DS2_en_csv_v2_34.csv''
   \<and> \<not> contains ''Metadata'' ''API_SP.POP.TOTL_DS2_en_csv_v2_34.csv''
   \<and> script read_csv script_config
        [(''API_SP.POP.TOTL_DS2_en_csv_v2_34.csv'',
          ''Data Source,World Development Indicators'' @ [CHR 0x0A, CHR 0x0A] @
          ''Last Updated Date,2024-06-28'' @ [CHR 0x0A, CHR 0x0A] @
          ''Country Name,Country Code,2019,2020'' @ [CHR 0x0A] @
          ''A,AAA,100,2000000'' @ [CHR 0x0A] @ ''B,BBB,200,6000000'' @ [CHR 0x0A])]
      = ([UsingDataset ''API_SP.POP.TOTL_DS2_en_csv_v2_34.csv'',
          VisualizingContinuous ''2020'',
          Histogram ''2020'' [2000000, 6000000],
          SummaryStatistics ''2020''
            \<lparr>count = 2, mean = Some 4000000, median = Some 4000000, minimum = Some 2000000,
             maximum = Some 6000000, std = series_std [2000000, 6000000]\<rparr>,
          VisualizingCategorical ''2020 (Population Size Categories)'',
          BarChart ''2020 (Population Size Categories)''
            (CatCol [Some ''1M - 5M'', Some ''5M - 10M'']) 10,
          CategoricalSummary ''2020 (Population Size Categories)'' 2 2], None)"
proof -
  have c: "is_csv ''API_SP.POP.TOTL_DS2_en_csv_v2_34.csv''" by code_simp
  have m: "\<not> contains ''Metadata'' ''API_SP.POP.TOTL_DS2_en_csv_v2_34.csv''" by code_simp
  have b: "basename ''API_SP.POP.TOTL_DS2_en_csv_v2_34.csv'' = ''API_SP.POP.TOTL_DS2_en_csv_v2_34.csv''"
    by code_simp
  have l: "\<forall>b \<in> set [''Data Source,World Development Indicators'', [],
                        ''Last Updated Date,2024-06-28'', []].
             CHR 0x0A \<notin> set b \<and> CHR 0x0D \<notin> set b"
    by simp
  from C7_end_to_end [OF c m l] b c m show ?thesis by simp
qed

end
